theory Spec2Isabelle
  imports Main "HOL-Library.AList"
begin

section \<open>OTA update server: fleet registry, identity resolution, manifest builder, record query\<close>

text \<open>
  A shallow embedding of \<^verbatim>\<open>src/ota-server/server.js\<close>. JavaScript strings are
  \<^typ>\<open>string\<close>; a value that may be \<^verbatim>\<open>undefined\<close> or \<^verbatim>\<open>null\<close> is an
  \<^typ>\<open>string option\<close>; a JavaScript \<^verbatim>\<open>Map\<close> is an association list in insertion
  order (\<^verbatim>\<open>Map.set\<close> is \<^const>\<open>AList.update\<close>: an existing key keeps its place,
  a new key goes to the end; \<^verbatim>\<open>Map.delete\<close> is \<^const>\<open>AList.delete\<close>). The clock
  (\<^verbatim>\<open>Date.now()\<close>, \<^verbatim>\<open>new Date()\<close>) is an explicit argument in milliseconds since
  the epoch.
\<close>

subsection \<open>JavaScript values\<close>

text \<open>Truthiness of a string-or-undefined value: \<^verbatim>\<open>undefined\<close> and \<^verbatim>\<open>''\<close> are falsy.\<close>

fun truthy :: "string option \<Rightarrow> bool" where
  "truthy None = False"
| "truthy (Some s) = (s \<noteq> [])"

text \<open>\<^verbatim>\<open>a || b\<close> where \<^verbatim>\<open>b\<close> is a string.\<close>

fun or_else :: "string option \<Rightarrow> string \<Rightarrow> string" where
  "or_else None b = b"
| "or_else (Some s) b = (if s \<noteq> [] then s else b)"

text \<open>
  \<^verbatim>\<open>String.prototype.trim\<close> on a header value. Node decodes header bytes as Latin-1,
  so the white space and line terminators that can occur are TAB, LF, VT, FF, CR, SP
  and NBSP.
\<close>

definition js_whitespace :: "char \<Rightarrow> bool" where
  "js_whitespace c \<longleftrightarrow> c \<in> {CHR 0x09, CHR 0x0A, CHR 0x0B, CHR 0x0C, CHR 0x0D, CHR 0x20, CHR 0xA0}"

definition trim :: "string \<Rightarrow> string" where
  "trim s = rev (dropWhile js_whitespace (rev (dropWhile js_whitespace s)))"

text \<open>\<^verbatim>\<open>s.split(',')[0]\<close>: the part of \<open>s\<close> before its first comma.\<close>

definition split_comma_first :: "string \<Rightarrow> string" where
  "split_comma_first s = takeWhile (\<lambda>c. c \<noteq> CHR '','') s"

text \<open>
  The \<^verbatim>\<open>lastSeen\<close> field holds a date string, which the code writes with
  \<^verbatim>\<open>new Date().toISOString()\<close> and reads back with \<^verbatim>\<open>new Date(s).getTime()\<close>.
  A string is represented by what that reading makes of it: \<open>ISOString t\<close> stands for
  a string that is read as the instant \<open>t\<close>, in milliseconds since the epoch. Every
  string that \<^verbatim>\<open>toISOString\<close> writes is one (the two conversions are inverse at
  millisecond precision), and a string in any other format that \<^verbatim>\<open>Date\<close> accepts and
  reads as \<open>t\<close> is represented by \<open>ISOString t\<close> as well.
  \<open>Unparsable s\<close> stands for a string \<open>s\<close> that \<^verbatim>\<open>Date\<close> does not accept, for
  which \<^verbatim>\<open>getTime()\<close> is \<^verbatim>\<open>NaN\<close>.
\<close>

datatype datestring = ISOString int | Unparsable string

text \<open>\<^verbatim>\<open>new Date(s).getTime()\<close>; \<open>None\<close> is \<^verbatim>\<open>NaN\<close>.\<close>

fun getTime :: "datestring \<Rightarrow> int option" where
  "getTime (ISOString t) = Some t"
| "getTime (Unparsable s) = None"

text \<open>\<^verbatim>\<open>a < b\<close> on numbers: every comparison with \<^verbatim>\<open>NaN\<close> is false.\<close>

fun lt_number :: "int option \<Rightarrow> int \<Rightarrow> bool" where
  "lt_number None b = False"
| "lt_number (Some a) b = (a < b)"

subsection \<open>Client identity resolver\<close>

record request =
  headers :: "string \<Rightarrow> string option"
  connection_remoteAddress :: "string option"
  socket_remoteAddress :: "string option"

definition getClientIP :: "request \<Rightarrow> string" where
  "getClientIP req =
     (let forwarded = headers req ''x-forwarded-for'' in
      if truthy forwarded then trim (split_comma_first (or_else forwarded []))
      else
        let realIP = headers req ''x-real-ip'' in
        if truthy realIP then or_else realIP []
        else or_else (connection_remoteAddress req)
               (or_else (socket_remoteAddress req) ''unknown''))"

text \<open>\<^verbatim>\<open>const agentId = req.headers['x-agent-id'] || ip\<close> in \<^verbatim>\<open>recordAgentStatus\<close>.\<close>

definition agentIdOf :: "request \<Rightarrow> string" where
  "agentIdOf req = or_else (headers req ''x-agent-id'') (getClientIP req)"

subsection \<open>Fleet registry\<close>

text \<open>
  \<^verbatim>\<open>requestCount\<close> is a JavaScript number, an IEEE double, that holds a count: it
  starts at 0 and changes only by \<^verbatim>\<open>requestCount++\<close>. Below \<open>2 ^ 53\<close> every
  natural number is a double and the increment is exact. From \<open>2 ^ 53\<close> to
  \<open>2 ^ 54\<close> the doubles are the even numbers, \<open>c + 1\<close> lies half way between two of
  them and is rounded to the one whose half is even; from \<open>2 ^ 54\<close> on, \<open>c + 1\<close>
  is rounded back to \<open>c\<close>. So the count stops at \<open>2 ^ 53\<close>.
\<close>

definition jsIncrement :: "nat \<Rightarrow> nat" where
  "jsIncrement c =
     (if c < 2 ^ 53 then c + 1
      else if c < 2 ^ 54 \<and> odd (c div 2) then c + 2
      else c)"

text \<open>
  The record field \<^verbatim>\<open>id\<close> is \<open>agent_id\<close> here, \<^verbatim>\<open>id\<close> being the identity
  function of HOL.
\<close>

record AgentState =
  agent_id :: string
  localVersion :: string
  ip :: string
  lastSeen :: datestring
  requestCount :: nat
  currentVersion :: "string option"
  lastAction :: string
  userAgent :: string

type_synonym agents = "(string \<times> AgentState) list"
type_synonym registry = "(string \<times> agents) list"

text \<open>The object literal stored for an agent seen for the first time.\<close>

definition newAgent :: "string \<Rightarrow> string \<Rightarrow> string \<Rightarrow> datestring \<Rightarrow> string \<Rightarrow> string \<Rightarrow> AgentState" where
  "newAgent agentId lv ipaddr now action ua =
     \<lparr>agent_id = agentId, localVersion = lv, ip = ipaddr, lastSeen = now,
      requestCount = 0, currentVersion = None, lastAction = action, userAgent = ua\<rparr>"

text \<open>The field updates made on every call, to a new record as to an old one.\<close>

definition touchAgent :: "request \<Rightarrow> datestring \<Rightarrow> string \<Rightarrow> string option \<Rightarrow> AgentState \<Rightarrow> AgentState" where
  "touchAgent req now action version agent =
     (let lv = or_else (headers req ''x-local-version'') [];
          a1 = agent\<lparr>lastSeen := now, requestCount := jsIncrement (requestCount agent), lastAction := action\<rparr>;
          a2 = (if truthy version then a1\<lparr>currentVersion := version\<rparr> else a1);
          a3 = (if lv \<noteq> [] then a2\<lparr>localVersion := lv\<rparr> else a2)
      in if truthy (headers req ''x-agent-id'') then a3\<lparr>ip := getClientIP req\<rparr> else a3)"

definition recordAgentStatus ::
  "int \<Rightarrow> registry \<Rightarrow> string \<Rightarrow> request \<Rightarrow> string \<Rightarrow> string option \<Rightarrow> registry" where
  "recordAgentStatus clock agentStatus appName req action version =
     (let ipaddr = getClientIP req;
          ua = or_else (headers req ''user-agent'') ''unknown'';
          agentId = or_else (headers req ''x-agent-id'') ipaddr;
          lv = or_else (headers req ''x-local-version'') [];
          now = ISOString clock;
          appAgents = (case map_of agentStatus appName of None \<Rightarrow> [] | Some m \<Rightarrow> m);
          agent = (case map_of appAgents agentId of
                     None \<Rightarrow> newAgent agentId lv ipaddr now action ua
                   | Some a \<Rightarrow> a)
      in AList.update appName
           (AList.update agentId (touchAgent req now action version agent) appAgents)
           agentStatus)"

text \<open>
  \<^verbatim>\<open>cleanupInactiveAgents\<close>: both loops walk the entries of a map and delete from that
  map while walking. The walk is over the entries present at the start (a deletion only
  ever removes the entry being visited), the map is threaded through as state. The agent
  map of an application is an object that the registry entry refers to, so what the inner
  loop deletes from it is seen through the registry: the outer loop stores the swept map
  back under its key, unless it is empty and the key is deleted.
\<close>

fun sweepAgents :: "int \<Rightarrow> (string \<times> AgentState) list \<Rightarrow> agents \<Rightarrow> agents" where
  "sweepAgents oneHourAgo [] appAgents = appAgents"
| "sweepAgents oneHourAgo ((agentId, agent) # entries) appAgents =
     sweepAgents oneHourAgo entries
       (if lt_number (getTime (lastSeen agent)) oneHourAgo
        then AList.delete agentId appAgents else appAgents)"

fun sweepApps :: "int \<Rightarrow> (string \<times> agents) list \<Rightarrow> registry \<Rightarrow> registry" where
  "sweepApps oneHourAgo [] agentStatus = agentStatus"
| "sweepApps oneHourAgo ((appName, appAgents) # entries) agentStatus =
     (let appAgents' = sweepAgents oneHourAgo appAgents appAgents
      in sweepApps oneHourAgo entries
           (if length appAgents' = 0 then AList.delete appName agentStatus
            else AList.update appName appAgents' agentStatus))"

definition cleanupInactiveAgents :: "int \<Rightarrow> registry \<Rightarrow> registry" where
  "cleanupInactiveAgents clock agentStatus =
     sweepApps (clock - 60 * 60 * 1000) agentStatus agentStatus"

text \<open>The agent list served at \<^verbatim>\<open>/ota/<app>/agents\<close>.\<close>

definition listAgents :: "registry \<Rightarrow> string \<Rightarrow> AgentState list" where
  "listAgents agentStatus appName =
     (case map_of agentStatus appName of None \<Rightarrow> [] | Some appAgents \<Rightarrow> map snd appAgents)"

definition lookupAgent :: "registry \<Rightarrow> string \<Rightarrow> string \<Rightarrow> AgentState option" where
  "lookupAgent agentStatus appName agentId =
     (case map_of agentStatus appName of None \<Rightarrow> None | Some appAgents \<Rightarrow> map_of appAgents agentId)"

text \<open>What a JavaScript \<^verbatim>\<open>Map\<close> guarantees of its keys, at both levels.\<close>

definition unique_keys :: "registry \<Rightarrow> bool" where
  "unique_keys agentStatus \<longleftrightarrow>
     distinct (map fst agentStatus) \<and> list_all (\<lambda>e. distinct (map fst (snd e))) agentStatus"

text \<open>The entries of an agent map that a sweep with threshold \<open>oneHourAgo\<close> does not delete.\<close>

definition retained :: "int \<Rightarrow> agents \<Rightarrow> agents" where
  "retained oneHourAgo appAgents =
     filter (\<lambda>e. \<not> lt_number (getTime (lastSeen (snd e))) oneHourAgo) appAgents"

text \<open>All records stored for one (application, agent identity) pair, in storage order.\<close>

definition agentRecords :: "registry \<Rightarrow> string \<Rightarrow> string \<Rightarrow> AgentState list" where
  "agentRecords agentStatus appName agentId =
     concat (map (\<lambda>e. map snd (filter (\<lambda>x. fst x = agentId) (snd e)))
                 (filter (\<lambda>e. fst e = appName) agentStatus))"

text \<open>Every stored record carries the key it is stored under.\<close>

definition ids_match :: "registry \<Rightarrow> bool" where
  "ids_match agentStatus \<longleftrightarrow>
     list_all (\<lambda>e. list_all (\<lambda>x. agent_id (snd x) = fst x) (snd e)) agentStatus"

text \<open>One call of \<^verbatim>\<open>recordAgentStatus\<close>: its arguments and the clock reading it takes.\<close>

record activity =
  act_req :: request
  act_action :: string
  act_version :: "string option"
  act_clock :: int

definition recordActivity :: "registry \<Rightarrow> string \<Rightarrow> activity \<Rightarrow> registry" where
  "recordActivity agentStatus appName c =
     recordAgentStatus (act_clock c) agentStatus appName (act_req c) (act_action c) (act_version c)"

fun recordAll :: "registry \<Rightarrow> string \<Rightarrow> activity list \<Rightarrow> registry" where
  "recordAll agentStatus appName [] = agentStatus"
| "recordAll agentStatus appName (c # cs) = recordAll (recordActivity agentStatus appName c) appName cs"

text \<open>
  The registry is written by the two request handlers that call \<^verbatim>\<open>recordAgentStatus\<close>
  and by the timer that calls \<^verbatim>\<open>cleanupInactiveAgents\<close>; it starts as the empty map.
\<close>

datatype operation = RecordActivity string activity | EvictStale int

fun step :: "registry \<Rightarrow> operation \<Rightarrow> registry" where
  "step agentStatus (RecordActivity appName c) = recordActivity agentStatus appName c"
| "step agentStatus (EvictStale clock) = cleanupInactiveAgents clock agentStatus"

definition run :: "operation list \<Rightarrow> registry" where
  "run ops = foldl step [] ops"

subsection \<open>The sweep on values that the registry's writer never stores\<close>

text \<open>
  \<^verbatim>\<open>recordAgentStatus\<close> is the only writer of the registry, and what it stores are
  objects whose \<^verbatim>\<open>lastSeen\<close> is a date string; the registry type above holds nothing
  else. The sweep does not check what it reads, so what it does on other values is stated
  on a wider type. A stored value is an object, of which the sweep reads only the
  \<^verbatim>\<open>lastSeen\<close> property, or it is \<^verbatim>\<open>null\<close> (\<^verbatim>\<open>undefined\<close> behaves alike), and
  reading \<^verbatim>\<open>agent.lastSeen\<close> of it throws a \<^verbatim>\<open>TypeError\<close>. The \<^verbatim>\<open>lastSeen\<close> of
  an object is a string; or it is missing, and \<^verbatim>\<open>new Date(undefined).getTime()\<close> is
  \<^verbatim>\<open>NaN\<close>; or it is a Symbol or a BigInt, which \<^verbatim>\<open>new Date\<close> cannot convert to a
  number: it throws a \<^verbatim>\<open>TypeError\<close>.
\<close>

datatype stored_lastSeen = DateText datestring | NoLastSeen | SymbolValue | BigIntValue

datatype stored_value = AgentObject stored_lastSeen | NullValue

datatype exn = TypeError

text \<open>\<^verbatim>\<open>new Date(agent.lastSeen).getTime()\<close>.\<close>

fun lastSeenTimeOf :: "stored_value \<Rightarrow> exn + int option" where
  "lastSeenTimeOf NullValue = Inl TypeError"
| "lastSeenTimeOf (AgentObject (DateText d)) = Inr (getTime d)"
| "lastSeenTimeOf (AgentObject NoLastSeen) = Inr None"
| "lastSeenTimeOf (AgentObject SymbolValue) = Inl TypeError"
| "lastSeenTimeOf (AgentObject BigIntValue) = Inl TypeError"

type_synonym stored_agents = "(string \<times> stored_value) list"
type_synonym stored_registry = "(string \<times> stored_agents) list"

text \<open>
  How a loop ends: \<open>Returned m\<close> when it ran to its end and left the map \<open>m\<close>,
  \<open>Thrown e m\<close> when the exception \<open>e\<close> left it, the map being \<open>m\<close> by then.
  \<^verbatim>\<open>cleanupInactiveAgents\<close> has no \<^verbatim>\<open>try\<close>: an exception leaves both loops and
  the function at once, and what was deleted before stays deleted.
\<close>

datatype 'a completion = Returned 'a | Thrown exn 'a

fun sweepAgents_raw :: "int \<Rightarrow> (string \<times> stored_value) list \<Rightarrow> stored_agents \<Rightarrow> stored_agents completion" where
  "sweepAgents_raw oneHourAgo [] appAgents = Returned appAgents"
| "sweepAgents_raw oneHourAgo ((agentId, agent) # entries) appAgents =
     (case lastSeenTimeOf agent of
        Inl e \<Rightarrow> Thrown e appAgents
      | Inr lastSeenTime \<Rightarrow>
          sweepAgents_raw oneHourAgo entries
            (if lt_number lastSeenTime oneHourAgo
             then AList.delete agentId appAgents else appAgents))"

fun sweepApps_raw :: "int \<Rightarrow> (string \<times> stored_agents) list \<Rightarrow> stored_registry \<Rightarrow> stored_registry completion" where
  "sweepApps_raw oneHourAgo [] agentStatus = Returned agentStatus"
| "sweepApps_raw oneHourAgo ((appName, appAgents) # entries) agentStatus =
     (case sweepAgents_raw oneHourAgo appAgents appAgents of
        Thrown e appAgents' \<Rightarrow> Thrown e (AList.update appName appAgents' agentStatus)
      | Returned appAgents' \<Rightarrow>
          sweepApps_raw oneHourAgo entries
            (if length appAgents' = 0 then AList.delete appName agentStatus
             else AList.update appName appAgents' agentStatus))"

definition cleanupInactiveAgents_raw :: "int \<Rightarrow> stored_registry \<Rightarrow> stored_registry completion" where
  "cleanupInactiveAgents_raw clock agentStatus =
     sweepApps_raw (clock - 60 * 60 * 1000) agentStatus agentStatus"

text \<open>A registry of the narrower type, seen as stored values.\<close>

definition raw_of_agents :: "agents \<Rightarrow> stored_agents" where
  "raw_of_agents appAgents = map (\<lambda>x. (fst x, AgentObject (DateText (lastSeen (snd x))))) appAgents"

definition raw_of :: "registry \<Rightarrow> stored_registry" where
  "raw_of agentStatus = map (\<lambda>e. (fst e, raw_of_agents (snd e))) agentStatus"




subsection \<open>Content hasher and manifest builder\<close>

text \<open>
  The filesystem is a map from paths to nodes; \<^verbatim>\<open>fs.existsSync\<close> is true of files and
  directories, \<^verbatim>\<open>fs.readFileSync\<close> returns the content of a file and throws on anything
  else. Every access the code makes is recorded, in order, as an event: this is what
  "before any filesystem access" is stated on. \<open>LogError\<close> is the write to the log file
  that \<^verbatim>\<open>error(...)\<close> makes. The hash function of \<^verbatim>\<open>crypto\<close> is a parameter.
\<close>

datatype fsnode = File string | Directory

type_synonym filesystem = "string \<Rightarrow> fsnode option"

datatype fs_event = ExistsSync string | ReadFileSync string | LogError string

text \<open>
  \<open>Error m\<close> is \<^verbatim>\<open>new Error(m)\<close>; \<open>ReadError p\<close> is the exception of
  \<^verbatim>\<open>fs.readFileSync(p)\<close>, which \<^verbatim>\<open>calculateSHA256\<close> logs and throws again.
\<close>

datatype error = Error string | ReadError string

definition calculateSHA256 ::
  "(string \<Rightarrow> string) \<Rightarrow> filesystem \<Rightarrow> string \<Rightarrow> (error + string) \<times> fs_event list" where
  "calculateSHA256 digest fs filePath =
     (case fs filePath of
        Some (File fileBuffer) \<Rightarrow> (Inr (digest fileBuffer), [ReadFileSync filePath])
      | _ \<Rightarrow> (Inl (ReadError filePath), [ReadFileSync filePath, LogError filePath]))"

text \<open>\<^verbatim>\<open>path.basename\<close> (POSIX): trailing slashes are dropped, then the part after the last slash is taken.\<close>

definition basename :: "string \<Rightarrow> string" where
  "basename p = rev (takeWhile (\<lambda>c. c \<noteq> CHR ''/'') (dropWhile (\<lambda>c. c = CHR ''/'') (rev p)))"

text \<open>
  One element of the \<^verbatim>\<open>files\<close> argument; its fields are \<^verbatim>\<open>path\<close>, \<^verbatim>\<open>name\<close>,
  \<^verbatim>\<open>target\<close>, \<^verbatim>\<open>version\<close> and \<^verbatim>\<open>restart\<close> (of which only the truthiness is used).
\<close>

record file_spec =
  file_path :: "string option"
  file_name :: "string option"
  file_target :: "string option"
  file_version :: "string option"
  file_restart :: bool

text \<open>One element of \<^verbatim>\<open>fileList\<close>.\<close>

record entry =
  entry_name :: string
  entry_url :: string
  entry_sha256 :: string
  entry_target :: "string option"
  entry_version :: string
  entry_restart :: bool

record config =
  config_version :: string
  config_files :: "entry list"
  config_restart_cmd :: "string option"

record manifest =
  yaml :: string
  config :: config

text \<open>
  \<^verbatim>\<open>options.restartCmd\<close> is compared with \<^verbatim>\<open>undefined\<close>, so \<^verbatim>\<open>null\<close> and
  \<^verbatim>\<open>undefined\<close> are kept apart there; \<^verbatim>\<open>options.baseUrl\<close> is only tested for truth.
\<close>

datatype js_string = JSUndefined | JSNull | JSString string

record options =
  opt_baseUrl :: "string option"
  opt_restartCmd :: js_string

text \<open>The configuration constants \<^verbatim>\<open>BASE_URL\<close> and \<^verbatim>\<open>RESTART_CMD\<close>, read from the environment.\<close>

record settings =
  BASE_URL :: string
  RESTART_CMD :: string

datatype files_arg = NotArray | Array "file_spec list"

definition nl :: string where
  "nl = [CHR 0x0A]"

definition dq :: string where
  "dq = [CHR 0x22]"

text \<open>A value inside a template literal: \<^verbatim>\<open>undefined\<close> prints as the word.\<close>

fun interpolate :: "string option \<Rightarrow> string" where
  "interpolate None = ''undefined''"
| "interpolate (Some s) = s"

text \<open>
  The first loop of \<^verbatim>\<open>generateConfig\<close>: for each file, the existence check, then the
  digest, then the entry. An exception ends the loop; the events made so far remain.
\<close>

fun buildFileList ::
  "(string \<Rightarrow> string) \<Rightarrow> filesystem \<Rightarrow> string \<Rightarrow> string \<Rightarrow> string \<Rightarrow> file_spec list
     \<Rightarrow> (error + entry list) \<times> fs_event list" where
  "buildFileList digest fs baseUrl appName vers [] = (Inr [], [])"
| "buildFileList digest fs baseUrl appName vers (file # files) =
     (if \<not> truthy (file_path file)
      then (Inl (Error (''Binary file not found: '' @ or_else (file_path file) ''unknown'')), [])
      else
        let p = or_else (file_path file) [] in
        if fs p = None
        then (Inl (Error (''Binary file not found: '' @ p)), [ExistsSync p])
        else
          (case calculateSHA256 digest fs p of
             (Inl e, evs) \<Rightarrow> (Inl e, ExistsSync p # evs)
           | (Inr sha, evs) \<Rightarrow>
               let fileName = basename p;
                   ent = \<lparr>entry_name = or_else (file_name file) fileName,
                          entry_url = baseUrl @ ''/ota/'' @ appName @ ''/files/'' @ fileName,
                          entry_sha256 = sha,
                          entry_target = file_target file,
                          entry_version = or_else (file_version file) vers,
                          entry_restart = file_restart file\<rparr>
               in (case buildFileList digest fs baseUrl appName vers files of
                     (Inl e, evs') \<Rightarrow> (Inl e, ExistsSync p # evs @ evs')
                   | (Inr fileList, evs') \<Rightarrow> (Inr (ent # fileList), ExistsSync p # evs @ evs'))))"

text \<open>The pieces appended to \<^verbatim>\<open>yaml\<close> for one file, one list element for each \<^verbatim>\<open>yaml += ...\<close>.\<close>

definition fileChunks :: "string \<Rightarrow> entry \<Rightarrow> string list" where
  "fileChunks vers file =
     [''  - name: '' @ dq @ entry_name file @ dq @ nl @
      ''    url: '' @ dq @ entry_url file @ dq @ nl @
      ''    sha256: '' @ dq @ entry_sha256 file @ dq @ nl @
      ''    target: '' @ dq @ interpolate (entry_target file) @ dq @ nl]
     @ (if entry_version file \<noteq> [] \<and> entry_version file \<noteq> vers
        then [''    version: '' @ dq @ entry_version file @ dq @ nl] else [])
     @ (if entry_restart file then [''    restart: true'' @ nl] else [])"

definition yamlChunks :: "config \<Rightarrow> string list" where
  "yamlChunks cfg =
     [''version: '' @ dq @ config_version cfg @ dq @ nl @ ''files:'' @ nl]
     @ concat (map (fileChunks (config_version cfg)) (config_files cfg))
     @ (if truthy (config_restart_cmd cfg)
        then [''restart_cmd: '' @ [CHR 0x27] @ or_else (config_restart_cmd cfg) [] @ [CHR 0x27] @ nl]
        else [])"

definition generateConfig ::
  "settings \<Rightarrow> (string \<Rightarrow> string) \<Rightarrow> filesystem \<Rightarrow> files_arg \<Rightarrow> string \<Rightarrow> string \<Rightarrow> options
     \<Rightarrow> (error + manifest) \<times> fs_event list" where
  "generateConfig env digest fs files vers appName opts =
     (let baseUrl = or_else (opt_baseUrl opts) (BASE_URL env);
          restartCmd = (case opt_restartCmd opts of
                          JSUndefined \<Rightarrow> JSString (RESTART_CMD env)
                        | v \<Rightarrow> v)
      in case files of
           NotArray \<Rightarrow> (Inl (Error ''Files must be an array''), [])
         | Array fl \<Rightarrow>
             if length fl = 0 then (Inl (Error ''Files array cannot be empty''), [])
             else if appName = [] then (Inl (Error ''App name is required''), [])
             else
               (case buildFileList digest fs baseUrl appName vers fl of
                  (Inl e, evs) \<Rightarrow> (Inl e, evs)
                | (Inr fileList, evs) \<Rightarrow>
                    let cfg = \<lparr>config_version = vers, config_files = fileList,
                               config_restart_cmd =
                                 (case restartCmd of
                                    JSString c \<Rightarrow> if c \<noteq> [] then Some c else None
                                  | _ \<Rightarrow> None)\<rparr>
                    in (Inr \<lparr>yaml = concat (yamlChunks cfg), config = cfg\<rparr>, evs)))"

subsection \<open>Record query\<close>

text \<open>
  A row of \<^verbatim>\<open>game_records\<close>. The \<^verbatim>\<open>timestamp\<close> column is text; the query reads it
  through \<^verbatim>\<open>CAST(timestamp AS INTEGER)\<close>, which is the parameter \<open>cast\<close> below.
\<close>

record game_record =
  rec_id :: nat
  rec_timestamp :: string
  rec_type :: "string option"
  rec_duration :: "int option"

text \<open>
  The conditions the code appends to the \<^verbatim>\<open>WHERE\<close> clause, each with the value bound
  to its \<^verbatim>\<open>?\<close>. A JavaScript \<^verbatim>\<open>NaN\<close> is bound as \<^verbatim>\<open>NULL\<close> (\<open>None\<close>), and a
  comparison with \<^verbatim>\<open>NULL\<close> selects no row.
\<close>

datatype sql_cond =
  TimestampGe "int option" | TimestampLt "int option" | TypeEq string | DurationEq "int option"

fun holds :: "(string \<Rightarrow> int) \<Rightarrow> game_record \<Rightarrow> sql_cond \<Rightarrow> bool" where
  "holds cast r (TimestampGe None) = False"
| "holds cast r (TimestampGe (Some n)) = (n \<le> cast (rec_timestamp r))"
| "holds cast r (TimestampLt None) = False"
| "holds cast r (TimestampLt (Some n)) = (cast (rec_timestamp r) < n)"
| "holds cast r (TypeEq s) = (rec_type r = Some s)"
| "holds cast r (DurationEq None) = False"
| "holds cast r (DurationEq (Some d)) = (rec_duration r = Some d)"

text \<open>
  \<^verbatim>\<open>db.all\<close> on the assembled query: the rows satisfying every condition, newest
  first (rows with equal timestamps are left in table order; SQL leaves their order open).
\<close>

definition db_all :: "(string \<Rightarrow> int) \<Rightarrow> game_record list \<Rightarrow> sql_cond list \<Rightarrow> game_record list" where
  "db_all cast rows conds =
     sort_key (\<lambda>r. - cast (rec_timestamp r)) (filter (\<lambda>r. list_all (holds cast r) conds) rows)"

text \<open>
  \<open>dateGetTime s\<close> is \<^verbatim>\<open>new Date(s).getTime()\<close> for a string without zone, which
  JavaScript reads in the server's local time zone (\<open>None\<close> is \<^verbatim>\<open>NaN\<close>);
  \<open>parseInt\<close> is the built-in. Both are parameters, as is the table content. The
  three \<^verbatim>\<open>if\<close> blocks of \<^verbatim>\<open>queryGameRecords\<close> each contribute their conditions.
\<close>

definition dateConds :: "(string \<Rightarrow> int option) \<Rightarrow> string option \<Rightarrow> sql_cond list" where
  "dateConds dateGetTime date =
     (if truthy date
      then let startTimestamp = map_option (\<lambda>ms. ms div 1000)
                                  (dateGetTime (or_else date [] @ ''T00:00:00''));
               endTimestamp = map_option (\<lambda>s. s + 86400) startTimestamp
           in [TimestampGe startTimestamp, TimestampLt endTimestamp]
      else [])"

definition typeConds :: "string option \<Rightarrow> sql_cond list" where
  "typeConds type = (if truthy type then [TypeEq (or_else type [])] else [])"

definition durationConds :: "(string \<Rightarrow> int option) \<Rightarrow> string option \<Rightarrow> sql_cond list" where
  "durationConds parseInt duration =
     (case duration of
        None \<Rightarrow> []
      | Some d \<Rightarrow> if d \<noteq> [] then [DurationEq (parseInt d)] else [])"

definition queryGameRecords ::
  "(string \<Rightarrow> int option) \<Rightarrow> (string \<Rightarrow> int option) \<Rightarrow> (string \<Rightarrow> int) \<Rightarrow> game_record list
     \<Rightarrow> string option \<Rightarrow> string option \<Rightarrow> string option \<Rightarrow> game_record list" where
  "queryGameRecords dateGetTime parseInt cast rows date type duration =
     db_all cast rows (dateConds dateGetTime date @ typeConds type @ durationConds parseInt duration)"

subsection \<open>Sample requests and registries\<close>

definition no_headers :: "string \<Rightarrow> string option" where
  "no_headers = (\<lambda>h. None)"

definition req_direct :: request where
  "req_direct = \<lparr>headers = no_headers, connection_remoteAddress = Some ''10.0.0.7'',
     socket_remoteAddress = Some ''10.0.0.7''\<rparr>"

definition req_with_id :: request where
  "req_with_id = \<lparr>headers = no_headers(''x-agent-id'' \<mapsto> ''robot-1'', ''x-forwarded-for'' \<mapsto> ''192.168.1.5 , 10.0.0.1''),
     connection_remoteAddress = Some ''10.0.0.1'', socket_remoteAddress = Some ''10.0.0.1''\<rparr>"

definition req_empty_forwarded :: request where
  "req_empty_forwarded = \<lparr>headers = no_headers(''x-forwarded-for'' \<mapsto> [], ''x-real-ip'' \<mapsto> ''10.0.0.1''),
     connection_remoteAddress = Some ''127.0.0.1'', socket_remoteAddress = Some ''127.0.0.1''\<rparr>"

definition req_empty_id :: request where
  "req_empty_id = \<lparr>headers = no_headers(''x-agent-id'' \<mapsto> []),
     connection_remoteAddress = Some ''10.0.0.7'', socket_remoteAddress = Some ''10.0.0.7''\<rparr>"

definition sample_agent :: "string \<Rightarrow> datestring \<Rightarrow> AgentState" where
  "sample_agent k seen = \<lparr>agent_id = k, localVersion = ''1.0.0'', ip = ''10.0.0.9'', lastSeen = seen,
     requestCount = 4, currentVersion = Some ''1.0.0'', lastAction = ''config_check'',
     userAgent = ''ota-agent''\<rparr>"

text \<open>
  A registry read at clock 10000000 ms: in application \<open>robo\<close> one agent last seen two
  hours ago, one with a date string that does not parse, one seen 30 minutes ago and one
  seen exactly one hour ago; in application \<open>arm\<close> a single agent last seen two hours ago.
\<close>

definition sample_registry :: registry where
  "sample_registry =
     [(''robo'', [(''old'', sample_agent ''old'' (ISOString 2800000)),
                  (''odd'', sample_agent ''odd'' (Unparsable ''yesterday'')),
                  (''new'', sample_agent ''new'' (ISOString 8200000)),
                  (''edge'', sample_agent ''edge'' (ISOString 6400000))]),
      (''arm'', [(''10.0.0.7'', sample_agent ''10.0.0.7'' (ISOString 2800000))])]"

definition sample_registry2 :: registry where
  "sample_registry2 = [(''robo'', [(''robot-1'', sample_agent ''robot-1'' (ISOString 100))])]"

definition sample_call :: "request \<Rightarrow> int \<Rightarrow> activity" where
  "sample_call req clock = \<lparr>act_req = req, act_action = ''config_check'', act_version = Some ''2.0.0'',
     act_clock = clock\<rparr>"

definition sample_ops :: "operation list" where
  "sample_ops = [RecordActivity ''arm'' (sample_call req_direct 1),
                 RecordActivity ''robo'' (sample_call req_direct 5),
                 RecordActivity ''robo'' (sample_call req_with_id 7),
                 RecordActivity ''robo'' (sample_call req_direct 9),
                 EvictStale 3600005]"

text \<open>A record whose count has reached \<open>2 ^ 53\<close>.\<close>

definition saturated_registry :: registry where
  "saturated_registry =
     [(''arm'', [(''10.0.0.7'',
         (sample_agent ''10.0.0.7'' (ISOString 100))\<lparr>requestCount := 9007199254740992\<rparr>)])]"



subsection \<open>Sample filesystem and manifest inputs\<close>

definition sample_fs :: filesystem where
  "sample_fs = (\<lambda>p. None)(''/srv/robo/agent.bin'' \<mapsto> File ''0123456789'',
     ''/srv/robo/ui.tar'' \<mapsto> File ''abc'')"

definition sample_settings :: settings where
  "sample_settings = \<lparr>BASE_URL = ''http://localhost:3000'', RESTART_CMD = []\<rparr>"

definition sample_digest :: "string \<Rightarrow> string" where
  "sample_digest content = ''digest-of-'' @ content"

definition no_options :: options where
  "no_options = \<lparr>opt_baseUrl = None, opt_restartCmd = JSUndefined\<rparr>"

definition file_agent :: file_spec where
  "file_agent = \<lparr>file_path = Some ''/srv/robo/agent.bin'', file_name = None,
     file_target = Some ''/usr/bin/agent'', file_version = None, file_restart = True\<rparr>"

definition file_ui :: file_spec where
  "file_ui = \<lparr>file_path = Some ''/srv/robo/ui.tar'', file_name = Some ''ui'',
     file_target = Some ''/opt/ui.tar'', file_version = Some ''2.1.0'', file_restart = False\<rparr>"

definition file_missing :: file_spec where
  "file_missing = \<lparr>file_path = Some ''/srv/robo/missing.bin'', file_name = None,
     file_target = Some ''/usr/bin/missing'', file_version = None, file_restart = False\<rparr>"

subsection \<open>Sample environment for the record query\<close>

text \<open>
  \<^verbatim>\<open>CAST(text AS INTEGER)\<close> of SQLite: leading white space (SP, TAB, LF, VT, FF,
  CR) is skipped, an optional sign and the longest run of digits are read, a text with no
  such prefix casts to 0, and a value outside the 64-bit range is cut to its nearest end.
\<close>

fun leading_int :: "string \<Rightarrow> int \<Rightarrow> int" where
  "leading_int [] acc = acc"
| "leading_int (c # cs) acc =
     (if c \<in> set ''0123456789'' then leading_int cs (10 * acc + (of_char c - 48)) else acc)"

definition sqlite_space :: "char \<Rightarrow> bool" where
  "sqlite_space c \<longleftrightarrow> c \<in> {CHR 0x09, CHR 0x0A, CHR 0x0B, CHR 0x0C, CHR 0x0D, CHR 0x20}"

definition cast_integer :: "string \<Rightarrow> int" where
  "cast_integer s =
     max (- (2 ^ 63)) (min (2 ^ 63 - 1)
       (case dropWhile sqlite_space s of
          [] \<Rightarrow> 0
        | c # cs \<Rightarrow> if c = CHR ''-'' then - leading_int cs 0
                    else if c = CHR ''+'' then leading_int cs 0
                    else leading_int (c # cs) 0))"

text \<open>
  \<^verbatim>\<open>new Date(s).getTime()\<close> on a server in the zone America/New_York, for the two
  local midnights around the change to daylight saving time of 2024-03-10 (UTC-5 before
  02:00 of that day, UTC-4 after); no other string is needed below.
\<close>

definition newYork_getTime :: "string \<Rightarrow> int option" where
  "newYork_getTime s =
     (if s = ''2024-03-10T00:00:00'' then Some 1710046800000
      else if s = ''2024-03-11T00:00:00'' then Some 1710129600000
      else None)"

text \<open>A stand-in for \<^verbatim>\<open>parseInt\<close> in queries without a duration filter, which never call it.\<close>

definition parseInt_unused :: "string \<Rightarrow> int option" where
  "parseInt_unused d = None"

definition row_at :: "nat \<Rightarrow> string \<Rightarrow> game_record" where
  "row_at n ts = \<lparr>rec_id = n, rec_timestamp = ts, rec_type = Some ''race'', rec_duration = Some 30\<rparr>"

section \<open>Verification\<close>

subsection \<open>The eviction sweep as a filter\<close>

lemma delete_filter: "AList.delete k m = filter (\<lambda>e. fst e \<noteq> k) m"
  by (induction m) (auto simp: AList.delete_eq)

lemma sweepAgents_filter_gen:
  "sweepAgents t es m =
     filter (\<lambda>e. fst e \<notin> fst ` {x \<in> set es. lt_number (getTime (lastSeen (snd x))) t}) m"
proof (induction es arbitrary: m)
  case Nil
  then show ?case by simp
next
  case (Cons e es)
  obtain k a where e: "e = (k, a)" by (cases e)
  show ?case
  proof (cases "lt_number (getTime (lastSeen a)) t")
    case True
    then show ?thesis
      unfolding e by (simp add: Cons.IH delete_filter) (rule filter_cong, auto simp: image_iff)
  next
    case False
    then show ?thesis
      unfolding e by (simp add: Cons.IH) (rule filter_cong, auto)
  qed
qed

lemma sweepAgents_self:
  assumes "distinct (map fst m)"
  shows "sweepAgents t m m = retained t m"
proof -
  have "\<And>e. e \<in> set m \<Longrightarrow>
      (fst e \<notin> fst ` {x \<in> set m. lt_number (getTime (lastSeen (snd x))) t})
      = (\<not> lt_number (getTime (lastSeen (snd e))) t)"
  proof -
    fix e assume e: "e \<in> set m"
    show "(fst e \<notin> fst ` {x \<in> set m. lt_number (getTime (lastSeen (snd x))) t})
      = (\<not> lt_number (getTime (lastSeen (snd e))) t)"
    proof
      assume "fst e \<notin> fst ` {x \<in> set m. lt_number (getTime (lastSeen (snd x))) t}"
      with e show "\<not> lt_number (getTime (lastSeen (snd e))) t" by auto
    next
      assume n: "\<not> lt_number (getTime (lastSeen (snd e))) t"
      show "fst e \<notin> fst ` {x \<in> set m. lt_number (getTime (lastSeen (snd x))) t}"
      proof
        assume "fst e \<in> fst ` {x \<in> set m. lt_number (getTime (lastSeen (snd x))) t}"
        then obtain x where x: "x \<in> set m" "fst x = fst e" "lt_number (getTime (lastSeen (snd x))) t"
          by auto
        have "snd x = snd e"
          using eq_key_imp_eq_value [OF assms, of "fst e" "snd x" "snd e"] x e by (metis prod.collapse)
        with x n show False by simp
      qed
    qed
  qed
  then show ?thesis
    unfolding sweepAgents_filter_gen retained_def by (auto intro!: filter_cong)
qed

lemma update_append_notin:
  "k \<notin> fst ` set pre \<Longrightarrow> AList.update k v (pre @ (k, w) # post) = pre @ (k, v) # post"
  by (induction pre) auto

lemma delete_append_notin:
  "k \<notin> fst ` set pre \<Longrightarrow> k \<notin> fst ` set post \<Longrightarrow> AList.delete k (pre @ (k, w) # post) = pre @ post"
  by (induction pre) (auto simp: delete_filter filter_id_conv)

lemma sweepApps_gen:
  assumes "distinct (map fst es)" "fst ` set pre \<inter> fst ` set es = {}"
    "list_all (\<lambda>e. distinct (map fst (snd e))) es"
  shows "sweepApps t es (pre @ es) =
     pre @ filter (\<lambda>e. snd e \<noteq> []) (map (\<lambda>e. (fst e, retained t (snd e))) es)"
  using assms
proof (induction es arbitrary: pre)
  case Nil
  then show ?case by simp
next
  case (Cons e es)
  obtain k m where e: "e = (k, m)" by (cases e)
  have dm: "distinct (map fst m)" using Cons.prems(3) by (simp add: e)
  have kpre: "k \<notin> fst ` set pre" using Cons.prems(2) by (auto simp: e)
  have kes: "k \<notin> fst ` set es" using Cons.prems(1) by (auto simp: e)
  have des: "distinct (map fst es)" using Cons.prems(1) by simp
  have les: "list_all (\<lambda>e. distinct (map fst (snd e))) es" using Cons.prems(3) by simp
  have sw: "sweepAgents t m m = retained t m" by (simp add: sweepAgents_self dm)
  show ?case
  proof (cases "retained t m = []")
    case True
    have "sweepApps t (e # es) (pre @ e # es) = sweepApps t es (pre @ es)"
      by (simp add: e sw True delete_append_notin kpre kes)
    also have "\<dots> = pre @ filter (\<lambda>e. snd e \<noteq> []) (map (\<lambda>e. (fst e, retained t (snd e))) es)"
      using Cons.prems(2) by (intro Cons.IH des les) auto
    finally show ?thesis by (simp add: e True)
  next
    case False
    have "sweepApps t (e # es) (pre @ e # es) = sweepApps t es ((pre @ [(k, retained t m)]) @ es)"
      by (simp add: e sw False update_append_notin kpre)
    also have "\<dots> = (pre @ [(k, retained t m)]) @ filter (\<lambda>e. snd e \<noteq> []) (map (\<lambda>e. (fst e, retained t (snd e))) es)"
      using Cons.prems(2) kes by (intro Cons.IH des les) (auto simp: e)
    finally show ?thesis by (simp add: e False)
  qed
qed

lemma cleanup_eq:
  assumes "unique_keys reg"
  shows "cleanupInactiveAgents now reg =
     filter (\<lambda>e. snd e \<noteq> []) (map (\<lambda>e. (fst e, retained (now - 3600000) (snd e))) reg)"
  using assms sweepApps_gen [of reg "[]" "now - 3600000"]
  by (simp add: cleanupInactiveAgents_def unique_keys_def)

lemma map_of_swept:
  "distinct (map fst reg) \<Longrightarrow>
   map_of (filter (\<lambda>e. snd e \<noteq> []) (map (\<lambda>e. (fst e, g (snd e))) reg)) k =
     (case map_of reg k of None \<Rightarrow> None | Some m \<Rightarrow> if g m = [] then None else Some (g m))"
proof (induction reg)
  case Nil
  then show ?case by simp
next
  case (Cons e reg)
  have "k = fst e \<Longrightarrow> map_of reg k = None"
    using Cons.prems by (simp add: map_of_eq_None_iff)
  with Cons show ?case by (cases e) (auto split: option.splits)
qed

lemma map_of_filter_snd:
  "distinct (map fst m) \<Longrightarrow>
   map_of (filter (\<lambda>e. P (snd e)) m) k =
     (case map_of m k of None \<Rightarrow> None | Some a \<Rightarrow> if P a then Some a else None)"
proof (induction m)
  case Nil
  then show ?case by simp
next
  case (Cons e m)
  have "k = fst e \<Longrightarrow> map_of m k = None"
    using Cons.prems by (simp add: map_of_eq_None_iff)
  with Cons show ?case by (cases e) (auto split: option.splits)
qed

lemma unique_keys_inner:
  "unique_keys reg \<Longrightarrow> map_of reg app = Some m \<Longrightarrow> distinct (map fst m)"
  by (auto simp: unique_keys_def list_all_iff dest!: map_of_SomeD)

lemma unique_keys_cleanup:
  assumes "unique_keys reg"
  shows "unique_keys (cleanupInactiveAgents now reg)"
proof -
  have d: "distinct (map fst reg)" using assms by (simp add: unique_keys_def)
  have "distinct (map fst (filter (\<lambda>e. snd e \<noteq> []) (map (\<lambda>e. (fst e, retained (now - 3600000) (snd e))) reg)))"
    using d by (induction reg) (auto simp: image_iff)
  moreover have "list_all (\<lambda>e. distinct (map fst (snd e)))
      (filter (\<lambda>e. snd e \<noteq> []) (map (\<lambda>e. (fst e, retained (now - 3600000) (snd e))) reg))"
    using assms by (auto simp: unique_keys_def list_all_iff retained_def distinct_map_filter)
  ultimately show ?thesis by (simp add: cleanup_eq [OF assms] unique_keys_def)
qed

lemma lookup_cleanup:
  assumes "unique_keys reg"
  shows "lookupAgent (cleanupInactiveAgents now reg) app aid =
     (case lookupAgent reg app aid of None \<Rightarrow> None
      | Some a \<Rightarrow> if lt_number (getTime (lastSeen a)) (now - 3600000) then None else Some a)"
proof -
  have d: "distinct (map fst reg)" using assms by (simp add: unique_keys_def)
  show ?thesis
  proof (cases "map_of reg app")
    case None
    then show ?thesis by (simp add: lookupAgent_def cleanup_eq [OF assms] map_of_swept [OF d])
  next
    case (Some m)
    have dm: "distinct (map fst m)" by (rule unique_keys_inner [OF assms Some])
    have r: "map_of (retained (now - 3600000) m) aid =
        (case map_of m aid of None \<Rightarrow> None
         | Some a \<Rightarrow> if \<not> lt_number (getTime (lastSeen a)) (now - 3600000) then Some a else None)"
      unfolding retained_def by (rule map_of_filter_snd [OF dm])
    have "lookupAgent (cleanupInactiveAgents now reg) app aid = map_of (retained (now - 3600000) m) aid"
      by (cases "retained (now - 3600000) m = []")
        (simp_all add: lookupAgent_def cleanup_eq [OF assms] map_of_swept [OF d] Some)
    then show ?thesis
      by (simp add: r lookupAgent_def Some split: option.splits)
  qed
qed

lemma list_cleanup:
  assumes "unique_keys reg"
  shows "listAgents (cleanupInactiveAgents now reg) app =
     filter (\<lambda>a. \<not> lt_number (getTime (lastSeen a)) (now - 3600000)) (listAgents reg app)"
proof -
  have d: "distinct (map fst reg)" using assms by (simp add: unique_keys_def)
  have m: "map snd (retained (now - 3600000) m) =
      filter (\<lambda>a. \<not> lt_number (getTime (lastSeen a)) (now - 3600000)) (map snd m)" for m
    by (simp add: retained_def filter_map o_def)
  show ?thesis
  proof (cases "map_of reg app")
    case None
    then show ?thesis by (simp add: listAgents_def cleanup_eq [OF assms] map_of_swept [OF d])
  next
    case (Some m0)
    have "listAgents (cleanupInactiveAgents now reg) app = map snd (retained (now - 3600000) m0)"
      by (cases "retained (now - 3600000) m0 = []")
        (simp_all add: listAgents_def cleanup_eq [OF assms] map_of_swept [OF d] Some)
    then show ?thesis by (simp add: m listAgents_def Some)
  qed
qed

lemma stale_iff: "lt_number (getTime (lastSeen a)) th \<longleftrightarrow> (\<exists>t. lastSeen a = ISOString t \<and> t < th)"
  by (cases "lastSeen a") auto

subsection \<open>Recording activity\<close>

lemma jsIncrement_below: "c < 2 ^ 53 \<Longrightarrow> jsIncrement c = c + 1"
  by (simp add: jsIncrement_def)

lemma jsIncrement_ge: "c \<le> jsIncrement c"
  by (simp add: jsIncrement_def)

lemma touchAgent_fields:
  "requestCount (touchAgent req now action version a) = jsIncrement (requestCount a)"
  "lastSeen (touchAgent req now action version a) = now"
  "agent_id (touchAgent req now action version a) = agent_id a"
  "lastAction (touchAgent req now action version a) = action"
  "ip (touchAgent req now action version a) =
     (if truthy (headers req ''x-agent-id'') then getClientIP req else ip a)"
  "currentVersion (touchAgent req now action version a) =
     (if truthy version then version else currentVersion a)"
  by (simp_all add: touchAgent_def Let_def)

lemma lookup_record:
  "lookupAgent (recordAgentStatus now reg app req action version) app' aid' =
     (if app' = app \<and> aid' = agentIdOf req
      then Some (touchAgent req (ISOString now) action version
             (case lookupAgent reg app (agentIdOf req) of
                None \<Rightarrow> newAgent (agentIdOf req) (or_else (headers req ''x-local-version'') [])
                          (getClientIP req) (ISOString now) action
                          (or_else (headers req ''user-agent'') ''unknown'')
              | Some a \<Rightarrow> a))
      else lookupAgent reg app' aid')"
  unfolding agentIdOf_def lookupAgent_def recordAgentStatus_def Let_def
  by (cases "map_of reg app") (simp_all add: update_conv')

lemma set_update_subset: "set (AList.update k v al) \<subseteq> insert (k, v) (set al)"
  by (induction al) auto

lemma unique_keys_record:
  assumes "unique_keys reg"
  shows "unique_keys (recordAgentStatus now reg app req action version)"
proof -
  define m where "m = (case map_of reg app of None \<Rightarrow> [] | Some m \<Rightarrow> m)"
  have dm: "distinct (map fst m)"
    using unique_keys_inner [OF assms] by (auto simp: m_def split: option.splits)
  have "list_all (\<lambda>e. distinct (map fst (snd e))) (AList.update app (AList.update k v m) reg)" for k v
    using assms set_update_subset [of app "AList.update k v m" reg] dm
    by (auto simp: unique_keys_def list_all_iff distinct_update)
  then show ?thesis
    using assms by (simp add: recordAgentStatus_def Let_def unique_keys_def distinct_update m_def)
qed

lemma filter_key_distinct:
  "distinct (map fst m) \<Longrightarrow>
   map snd (filter (\<lambda>x. fst x = k) m) = (case map_of m k of None \<Rightarrow> [] | Some v \<Rightarrow> [v])"
proof (induction m)
  case Nil
  then show ?case by simp
next
  case (Cons e m)
  have "k = fst e \<Longrightarrow> filter (\<lambda>x. fst x = k) m = []"
    using Cons.prems by (auto simp: filter_empty_conv image_iff)
  moreover have "k = fst e \<Longrightarrow> map_of m k = None"
    using Cons.prems by (simp add: map_of_eq_None_iff)
  ultimately show ?case using Cons by (cases e) (auto split: option.splits)
qed

lemma agentRecords_lookup:
  assumes "unique_keys reg"
  shows "agentRecords reg app aid = (case lookupAgent reg app aid of None \<Rightarrow> [] | Some a \<Rightarrow> [a])"
proof -
  have d: "distinct (map fst reg)" using assms by (simp add: unique_keys_def)
  have "agentRecords reg app aid =
      concat (map (\<lambda>m. map snd (filter (\<lambda>x. fst x = aid) m)) (map snd (filter (\<lambda>e. fst e = app) reg)))"
    by (simp add: agentRecords_def o_def)
  also have "\<dots> = (case map_of reg app of None \<Rightarrow> [] | Some m \<Rightarrow> map snd (filter (\<lambda>x. fst x = aid) m))"
    by (simp add: filter_key_distinct [OF d] split: option.splits)
  also have "\<dots> = (case lookupAgent reg app aid of None \<Rightarrow> [] | Some a \<Rightarrow> [a])"
    using unique_keys_inner [OF assms]
    by (auto simp: lookupAgent_def filter_key_distinct split: option.splits)
  finally show ?thesis .
qed

lemma recordAll_snoc:
  "recordAll reg app (xs @ [c]) = recordActivity (recordAll reg app xs) app c"
  by (induction xs arbitrary: reg) auto

lemma unique_keys_recordAll:
  "unique_keys reg \<Longrightarrow> unique_keys (recordAll reg app xs)"
  by (induction xs arbitrary: reg) (auto simp: recordActivity_def unique_keys_record)

subsection \<open>Eviction\<close>

text \<open>
  Claim C1. On a registry with unique keys, the sweep deletes a record exactly when its
  \<open>lastSeen\<close> parses to an instant strictly before \<open>now - 3600000\<close> ms (a record
  at exactly that instant, or later, or with an unparsable date, stays), the agents listed
  for an application are the surviving ones in their old order, an application stays a key
  of the registry exactly when one of its agents survives, and no application is left
  with an empty agent map; \<open>listAgents\<close> of a removed application is the empty list.
\<close>

theorem evictStale_removes_exactly_stale:
  assumes "unique_keys agentStatus"
  shows "lookupAgent (cleanupInactiveAgents now agentStatus) appName agentId =
           (case lookupAgent agentStatus appName agentId of
              None \<Rightarrow> None
            | Some a \<Rightarrow> if (\<exists>t. lastSeen a = ISOString t \<and> t < now - 60 * 60 * 1000) then None else Some a)
       \<and> listAgents (cleanupInactiveAgents now agentStatus) appName =
           filter (\<lambda>a. \<not> (\<exists>t. lastSeen a = ISOString t \<and> t < now - 60 * 60 * 1000))
             (listAgents agentStatus appName)
       \<and> (appName \<in> fst ` set (cleanupInactiveAgents now agentStatus) \<longleftrightarrow>
            listAgents (cleanupInactiveAgents now agentStatus) appName \<noteq> [])
       \<and> list_all (\<lambda>e. snd e \<noteq> []) (cleanupInactiveAgents now agentStatus)"
proof -
  let ?reg' = "cleanupInactiveAgents now agentStatus"
  have a: "lookupAgent ?reg' appName agentId =
           (case lookupAgent agentStatus appName agentId of
              None \<Rightarrow> None
            | Some a \<Rightarrow> if (\<exists>t. lastSeen a = ISOString t \<and> t < now - 60 * 60 * 1000) then None else Some a)"
    by (simp add: lookup_cleanup [OF assms] stale_iff split: option.splits)
  have b: "listAgents ?reg' appName =
           filter (\<lambda>a. \<not> (\<exists>t. lastSeen a = ISOString t \<and> t < now - 60 * 60 * 1000))
             (listAgents agentStatus appName)"
    by (simp add: list_cleanup [OF assms] stale_iff)
  have d: "list_all (\<lambda>e. snd e \<noteq> []) ?reg'"
    by (simp add: cleanup_eq [OF assms] list_all_iff)
  have c: "appName \<in> fst ` set ?reg' \<longleftrightarrow> listAgents ?reg' appName \<noteq> []"
  proof (cases "map_of ?reg' appName")
    case None
    then have "appName \<notin> fst ` set ?reg'" by (simp add: map_of_eq_None_iff)
    with None show ?thesis by (simp add: listAgents_def)
  next
    case (Some m)
    then have "(appName, m) \<in> set ?reg'" by (rule map_of_SomeD)
    with d have "m \<noteq> []" by (auto simp: list_all_iff)
    moreover have "appName \<in> fst ` set ?reg'"
      using Some by (metis map_of_eq_None_iff option.distinct(1))
    ultimately show ?thesis by (simp add: listAgents_def Some)
  qed
  from a b c d show ?thesis by blast
qed

theorem evictStale_removes_exactly_stale_witness:
  "unique_keys sample_registry
   \<and> lookupAgent (cleanupInactiveAgents 10000000 sample_registry) ''robo'' ''old'' = None
   \<and> lookupAgent (cleanupInactiveAgents 10000000 sample_registry) ''robo'' ''edge''
       = Some (sample_agent ''edge'' (ISOString 6400000))
   \<and> map agent_id (listAgents (cleanupInactiveAgents 10000000 sample_registry) ''robo'')
       = [''odd'', ''new'', ''edge'']
   \<and> ''arm'' \<notin> fst ` set (cleanupInactiveAgents 10000000 sample_registry)
   \<and> listAgents (cleanupInactiveAgents 10000000 sample_registry) ''arm'' = []"
proof -
  have u: "unique_keys sample_registry"
    by (simp add: unique_keys_def sample_registry_def)
  have l: "listAgents (cleanupInactiveAgents 10000000 sample_registry) ''arm'' = []"
    using evictStale_removes_exactly_stale [OF u, of 10000000 "''arm''" "''10.0.0.7''"]
    by (simp add: listAgents_def sample_registry_def sample_agent_def)
  show ?thesis
    using u l
      evictStale_removes_exactly_stale [OF u, of 10000000 "''robo''" "''old''"]
      evictStale_removes_exactly_stale [OF u, of 10000000 "''robo''" "''edge''"]
      evictStale_removes_exactly_stale [OF u, of 10000000 "''arm''" "''10.0.0.7''"]
    by (simp add: lookupAgent_def listAgents_def sample_registry_def sample_agent_def)
qed






text \<open>On the registries of the narrower type the two models of the sweep agree.\<close>

lemma delete_map_values:
  "AList.delete k (map (\<lambda>e. (fst e, f (snd e))) m) = map (\<lambda>e. (fst e, f (snd e))) (AList.delete k m)"
  by (induction m) auto

lemma update_map_values:
  "AList.update k (f v) (map (\<lambda>e. (fst e, f (snd e))) m) = map (\<lambda>e. (fst e, f (snd e))) (AList.update k v m)"
  by (induction m) auto

lemma sweepAgents_raw_of:
  "sweepAgents_raw t (raw_of_agents es) (raw_of_agents m) = Returned (raw_of_agents (sweepAgents t es m))"
proof (induction es arbitrary: m)
  case Nil
  then show ?case by (simp add: raw_of_agents_def)
next
  case (Cons e es)
  obtain k a where e: "e = (k, a)" by (cases e)
  have c: "raw_of_agents ((k, a) # es) = (k, AgentObject (DateText (lastSeen a))) # raw_of_agents es"
    by (simp add: raw_of_agents_def)
  have d: "AList.delete k (raw_of_agents m) = raw_of_agents (AList.delete k m)" for m
    unfolding raw_of_agents_def by (rule delete_map_values)
  show ?case
    unfolding e by (simp add: c d Cons.IH)
qed

lemma sweepApps_raw_of:
  "sweepApps_raw t (raw_of es) (raw_of reg) = Returned (raw_of (sweepApps t es reg))"
proof (induction es arbitrary: reg)
  case Nil
  then show ?case by (simp add: raw_of_def)
next
  case (Cons e es)
  obtain k m where e: "e = (k, m)" by (cases e)
  have c: "raw_of ((k, m) # es) = (k, raw_of_agents m) # raw_of es"
    by (simp add: raw_of_def)
  have d: "AList.delete k (raw_of reg) = raw_of (AList.delete k reg)" for reg
    unfolding raw_of_def by (rule delete_map_values)
  have u: "AList.update k (raw_of_agents v) (raw_of reg) = raw_of (AList.update k v reg)" for v reg
    unfolding raw_of_def by (rule update_map_values)
  have l: "length (raw_of_agents v) = length v" for v by (simp add: raw_of_agents_def)
  show ?case
    unfolding e by (simp add: c sweepAgents_raw_of d u l Cons.IH Let_def)
qed

lemma cleanup_raw_of:
  "cleanupInactiveAgents_raw now (raw_of reg) = Returned (raw_of (cleanupInactiveAgents now reg))"
  by (simp add: cleanupInactiveAgents_raw_def cleanupInactiveAgents_def sweepApps_raw_of)




text \<open>
  Claim C2. When the registry holds no record for the application and the identity the
  request resolves to, \<open>recordAgentStatus\<close> leaves exactly one record for that pair.
  It is the object literal \<open>newAgent\<close> (with \<open>currentVersion = None\<close> and
  \<open>requestCount = 0\<close>) after the updates of the same call, so its \<open>requestCount\<close>
  is 1 and its id is the resolved identity; the records of every other pair are unchanged.
\<close>

theorem recordActivity_creates_one_record:
  assumes "unique_keys agentStatus"
    and "agentRecords agentStatus appName (agentIdOf req) = []"
  shows "(let fresh = newAgent (agentIdOf req) (or_else (headers req ''x-local-version'') [])
                        (getClientIP req) (ISOString now) action
                        (or_else (headers req ''user-agent'') ''unknown'');
              created = touchAgent req (ISOString now) action version fresh;
              agentStatus' = recordAgentStatus now agentStatus appName req action version
          in agentRecords agentStatus' appName (agentIdOf req) = [created]
           \<and> currentVersion fresh = None \<and> requestCount fresh = 0
           \<and> requestCount created = 1
           \<and> agent_id created = agentIdOf req
           \<and> (\<forall>app' id'. (app', id') \<noteq> (appName, agentIdOf req) \<longrightarrow>
                 agentRecords agentStatus' app' id' = agentRecords agentStatus app' id'))"
proof -
  have none: "lookupAgent agentStatus appName (agentIdOf req) = None"
    using assms(2) by (simp add: agentRecords_lookup [OF assms(1)] split: option.splits)
  have u': "unique_keys (recordAgentStatus now agentStatus appName req action version)"
    by (rule unique_keys_record [OF assms(1)])
  show ?thesis
    by (simp add: Let_def agentRecords_lookup [OF u'] agentRecords_lookup [OF assms(1)]
        lookup_record none touchAgent_fields)
      (simp add: newAgent_def jsIncrement_def)
qed

subsection \<open>Identity and the address-update policy\<close>

lemma sample_ids:
  "getClientIP req_with_id = ''192.168.1.5''" "agentIdOf req_with_id = ''robot-1''"
  "getClientIP req_direct = ''10.0.0.7''" "agentIdOf req_direct = ''10.0.0.7''"
  "getClientIP req_empty_forwarded = ''10.0.0.1''" "agentIdOf req_empty_id = ''10.0.0.7''"
  by (simp_all add: getClientIP_def agentIdOf_def req_with_id_def req_direct_def req_empty_forwarded_def
      req_empty_id_def no_headers_def trim_def split_comma_first_def js_whitespace_def)

theorem recordActivity_creates_one_record_witness:
  "unique_keys sample_registry
   \<and> agentRecords sample_registry ''robo'' (agentIdOf req_with_id) = []
   \<and> agentRecords (recordAgentStatus 10000000 sample_registry ''robo'' req_with_id ''config_check'' (Some ''2.0.0''))
        ''robo'' ''robot-1''
      = [\<lparr>agent_id = ''robot-1'', localVersion = [], ip = ''192.168.1.5'', lastSeen = ISOString 10000000,
          requestCount = 1, currentVersion = Some ''2.0.0'', lastAction = ''config_check'',
          userAgent = ''unknown''\<rparr>]"
proof -
  have u: "unique_keys sample_registry"
    by (simp add: unique_keys_def sample_registry_def)
  have h: "agentRecords sample_registry ''robo'' (agentIdOf req_with_id) = []"
    by (simp add: agentRecords_def sample_registry_def sample_ids)
  have hd: "headers req_with_id ''x-local-version'' = None" "headers req_with_id ''user-agent'' = None"
    "headers req_with_id ''x-agent-id'' = Some ''robot-1''"
    by (simp_all add: req_with_id_def no_headers_def)
  show ?thesis
    using u h recordActivity_creates_one_record [OF u h, of 10000000 "''config_check''" "Some ''2.0.0''"]
    by (simp add: Let_def sample_ids touchAgent_def newAgent_def jsIncrement_def hd)
qed

text \<open>
  Claim C8. A call that finds a record for its (application, identity) pair overwrites the
  stored \<open>ip\<close> with the newly resolved address when the \<^verbatim>\<open>x-agent-id\<close> header gave
  the identity, and leaves \<open>ip\<close> as it was when the header is absent or empty and the
  identity fell back to the resolved address.
\<close>

theorem address_overwritten_only_with_explicit_identity:
  assumes "lookupAgent agentStatus appName (agentIdOf req) = Some old"
  shows "\<exists>new. lookupAgent (recordAgentStatus now agentStatus appName req action version)
                 appName (agentIdOf req) = Some new
           \<and> (\<forall>i. headers req ''x-agent-id'' = Some i \<and> i \<noteq> [] \<longrightarrow>
                 agentIdOf req = i \<and> ip new = getClientIP req)
           \<and> (headers req ''x-agent-id'' = None \<or> headers req ''x-agent-id'' = Some [] \<longrightarrow>
                 agentIdOf req = getClientIP req \<and> ip new = ip old)"
  using assms by (auto simp: lookup_record touchAgent_fields agentIdOf_def)

theorem address_overwritten_only_with_explicit_identity_witness:
  "lookupAgent sample_registry2 ''robo'' (agentIdOf req_with_id) = Some (sample_agent ''robot-1'' (ISOString 100))
   \<and> map_option ip (lookupAgent (recordAgentStatus 500 sample_registry2 ''robo'' req_with_id ''file_download'' None)
        ''robo'' ''robot-1'') = Some ''192.168.1.5''
   \<and> lookupAgent sample_registry ''arm'' (agentIdOf req_direct) = Some (sample_agent ''10.0.0.7'' (ISOString 2800000))
   \<and> map_option ip (lookupAgent (recordAgentStatus 500 sample_registry ''arm'' req_direct ''file_download'' None)
        ''arm'' ''10.0.0.7'') = Some ''10.0.0.9''"
proof -
  have a: "lookupAgent sample_registry2 ''robo'' (agentIdOf req_with_id) = Some (sample_agent ''robot-1'' (ISOString 100))"
    by (simp add: lookupAgent_def sample_registry2_def sample_ids)
  have b: "lookupAgent sample_registry ''arm'' (agentIdOf req_direct) = Some (sample_agent ''10.0.0.7'' (ISOString 2800000))"
    by (simp add: lookupAgent_def sample_registry_def sample_ids)
  have hd: "headers req_with_id ''x-agent-id'' = Some ''robot-1''" "headers req_direct ''x-agent-id'' = None"
    by (simp_all add: req_with_id_def req_direct_def no_headers_def)
  have "map_option ip (lookupAgent (recordAgentStatus 500 sample_registry2 ''robo'' req_with_id ''file_download'' None)
        ''robo'' ''robot-1'') = Some ''192.168.1.5''"
    using address_overwritten_only_with_explicit_identity [OF a, of 500 "''file_download''" None]
    by (auto simp: sample_ids hd)
  moreover have "map_option ip (lookupAgent (recordAgentStatus 500 sample_registry ''arm'' req_direct ''file_download'' None)
        ''arm'' ''10.0.0.7'') = Some ''10.0.0.9''"
    using address_overwritten_only_with_explicit_identity [OF b, of 500 "''file_download''" None]
    by (auto simp: sample_ids hd sample_agent_def)
  ultimately show ?thesis using a b by simp
qed

text \<open>
  Claim C7, as stated, fails for a header that is present and empty. The tests in
  \<^verbatim>\<open>getClientIP\<close> are truthiness tests: a request with an empty
  \<^verbatim>\<open>x-forwarded-for\<close> and \<^verbatim>\<open>x-real-ip: 10.0.0.1\<close> resolves to \<open>10.0.0.1\<close>,
  not to the (empty) first entry of the forwarded header.
\<close>

theorem forwarded_header_present_but_empty_counterexample:
  "\<not> (headers req_empty_forwarded ''x-forwarded-for'' \<noteq> None \<longrightarrow>
        getClientIP req_empty_forwarded
          = trim (split_comma_first (the (headers req_empty_forwarded ''x-forwarded-for''))))"
  by (simp add: getClientIP_def req_empty_forwarded_def no_headers_def trim_def split_comma_first_def)

text \<open>
  Claim C7, amended: each source is used when it is present and non-empty. The resolved
  address is the trimmed first comma-separated entry of a non-empty
  \<^verbatim>\<open>x-forwarded-for\<close>; else a non-empty \<^verbatim>\<open>x-real-ip\<close>; else a non-empty peer
  address of the connection, then of the socket; else \<open>unknown\<close>. The identity is a
  non-empty \<^verbatim>\<open>x-agent-id\<close>, else exactly the resolved address.
\<close>

theorem client_address_and_identity_resolution:
  "(\<forall>f. headers req ''x-forwarded-for'' = Some f \<and> f \<noteq> [] \<longrightarrow>
        getClientIP req = trim (takeWhile (\<lambda>c. c \<noteq> CHR '','') f))
   \<and> (headers req ''x-forwarded-for'' \<in> {None, Some []} \<longrightarrow>
        (\<forall>r. headers req ''x-real-ip'' = Some r \<and> r \<noteq> [] \<longrightarrow> getClientIP req = r)
      \<and> (headers req ''x-real-ip'' \<in> {None, Some []} \<longrightarrow>
           (\<forall>p. connection_remoteAddress req = Some p \<and> p \<noteq> [] \<longrightarrow> getClientIP req = p)
         \<and> (connection_remoteAddress req \<in> {None, Some []} \<longrightarrow>
              (\<forall>p. socket_remoteAddress req = Some p \<and> p \<noteq> [] \<longrightarrow> getClientIP req = p)
            \<and> (socket_remoteAddress req \<in> {None, Some []} \<longrightarrow> getClientIP req = ''unknown''))))
   \<and> (\<forall>i. headers req ''x-agent-id'' = Some i \<and> i \<noteq> [] \<longrightarrow> agentIdOf req = i)
   \<and> (headers req ''x-agent-id'' \<in> {None, Some []} \<longrightarrow> agentIdOf req = getClientIP req)"
proof -
  have t: "x \<in> {None, Some []} \<Longrightarrow> \<not> truthy x \<and> or_else x b = b" for x b
    by auto
  have a: "\<forall>f. headers req ''x-forwarded-for'' = Some f \<and> f \<noteq> [] \<longrightarrow>
        getClientIP req = trim (takeWhile (\<lambda>c. c \<noteq> CHR '','') f)"
    by (simp add: getClientIP_def split_comma_first_def)
  have b: "\<forall>r. headers req ''x-real-ip'' = Some r \<and> r \<noteq> [] \<longrightarrow> getClientIP req = r"
    if "headers req ''x-forwarded-for'' \<in> {None, Some []}"
    using t [OF that] by (simp add: getClientIP_def)
  have c: "getClientIP req = or_else (connection_remoteAddress req) (or_else (socket_remoteAddress req) ''unknown'')"
    if "headers req ''x-forwarded-for'' \<in> {None, Some []}" "headers req ''x-real-ip'' \<in> {None, Some []}"
    using t [OF that(1)] t [OF that(2)] by (simp add: getClientIP_def)
  have d: "\<forall>i. headers req ''x-agent-id'' = Some i \<and> i \<noteq> [] \<longrightarrow> agentIdOf req = i"
    by (simp add: agentIdOf_def)
  have e: "headers req ''x-agent-id'' \<in> {None, Some []} \<longrightarrow> agentIdOf req = getClientIP req"
    using t [of "headers req ''x-agent-id''"] by (simp add: agentIdOf_def)
  have c1: "\<forall>p. connection_remoteAddress req = Some p \<and> p \<noteq> [] \<longrightarrow> getClientIP req = p"
    if "headers req ''x-forwarded-for'' \<in> {None, Some []}" "headers req ''x-real-ip'' \<in> {None, Some []}"
    by (simp add: c [OF that])
  have c2: "\<forall>p. socket_remoteAddress req = Some p \<and> p \<noteq> [] \<longrightarrow> getClientIP req = p"
    if "headers req ''x-forwarded-for'' \<in> {None, Some []}" "headers req ''x-real-ip'' \<in> {None, Some []}"
      "connection_remoteAddress req \<in> {None, Some []}"
    using t [OF that(3)] by (simp add: c [OF that(1,2)])
  have c3: "getClientIP req = ''unknown''"
    if "headers req ''x-forwarded-for'' \<in> {None, Some []}" "headers req ''x-real-ip'' \<in> {None, Some []}"
      "connection_remoteAddress req \<in> {None, Some []}" "socket_remoteAddress req \<in> {None, Some []}"
    using t [OF that(3)] t [OF that(4)] by (simp add: c [OF that(1,2)])
  from a b c1 c2 c3 d e show ?thesis by blast
qed

theorem client_address_and_identity_resolution_witness:
  "getClientIP req_with_id = ''192.168.1.5'' \<and> agentIdOf req_with_id = ''robot-1''
   \<and> getClientIP req_empty_forwarded = ''10.0.0.1''
   \<and> getClientIP req_direct = ''10.0.0.7'' \<and> agentIdOf req_direct = ''10.0.0.7''
   \<and> agentIdOf req_empty_id = ''10.0.0.7''"
proof -
  have w: "trim ''192.168.1.5 '' = ''192.168.1.5''"
    by (simp add: trim_def js_whitespace_def)
  have h: "headers req_with_id ''x-forwarded-for'' = Some ''192.168.1.5 , 10.0.0.1''"
    "headers req_with_id ''x-agent-id'' = Some ''robot-1''"
    "headers req_empty_forwarded ''x-forwarded-for'' = Some []"
    "headers req_empty_forwarded ''x-real-ip'' = Some ''10.0.0.1''"
    "headers req_direct ''x-forwarded-for'' = None" "headers req_direct ''x-real-ip'' = None"
    "headers req_direct ''x-agent-id'' = None" "connection_remoteAddress req_direct = Some ''10.0.0.7''"
    "headers req_empty_id ''x-forwarded-for'' = None" "headers req_empty_id ''x-real-ip'' = None"
    "headers req_empty_id ''x-agent-id'' = Some []" "connection_remoteAddress req_empty_id = Some ''10.0.0.7''"
    by (simp_all add: req_with_id_def req_empty_forwarded_def req_direct_def req_empty_id_def no_headers_def)
  show ?thesis
    using client_address_and_identity_resolution [of req_with_id]
      client_address_and_identity_resolution [of req_empty_forwarded]
      client_address_and_identity_resolution [of req_direct]
      client_address_and_identity_resolution [of req_empty_id]
    by (simp add: h w)
qed

subsection \<open>Sequences of operations\<close>

lemma lookup_recordActivity_same:
  "lookupAgent (recordActivity reg app c) app (agentIdOf (act_req c)) =
     Some (touchAgent (act_req c) (ISOString (act_clock c)) (act_action c) (act_version c)
       (case lookupAgent reg app (agentIdOf (act_req c)) of
          None \<Rightarrow> newAgent (agentIdOf (act_req c)) (or_else (headers (act_req c) ''x-local-version'') [])
                    (getClientIP (act_req c)) (ISOString (act_clock c)) (act_action c)
                    (or_else (headers (act_req c) ''user-agent'') ''unknown'')
        | Some a \<Rightarrow> a))"
  by (simp add: recordActivity_def lookup_record)

text \<open>
  Claim C3, as stated, fails in its clause on \<open>requestCount\<close>: the count is a double
  and \<^verbatim>\<open>requestCount++\<close> leaves \<open>2 ^ 53\<close> as it is. A call on a record whose count
  is 9007199254740992 leaves that count unchanged.
\<close>

theorem requestCount_stops_at_2_53_counterexample:
  "map requestCount (agentRecords saturated_registry ''arm'' (agentIdOf req_direct))
     = [9007199254740992]
   \<and> map requestCount
        (agentRecords (recordAgentStatus 200 saturated_registry ''arm'' req_direct ''config_check'' None)
           ''arm'' (agentIdOf req_direct))
     = [9007199254740992]"
proof -
  have h: "headers req_direct h = None" for h
    by (simp add: req_direct_def no_headers_def)
  have j: "jsIncrement 9007199254740992 = 9007199254740992"
    by (simp add: jsIncrement_def)
  show ?thesis
    by (simp add: agentRecords_def saturated_registry_def recordAgentStatus_def touchAgent_def
        sample_agent_def sample_ids h j Let_def)
qed

text \<open>
  Claim C3, amended. Take any run of calls for one application that all resolve to the
  same identity, with a clock that does not go back, and any call \<open>c\<close> of the run. Before
  \<open>c\<close> there is at most one record for the pair and after it exactly one. Its
  \<open>requestCount\<close> is never less than before (counting a missing record as 0), and is
  one more than before whenever the count before is below \<open>2 ^ 53\<close>. Its
  \<open>lastSeen\<close> is the clock reading of \<open>c\<close>, which is not earlier than the
  \<open>lastSeen\<close> the previous call of the run left.
\<close>

theorem recordActivity_sequence_monotone:
  assumes uk: "unique_keys agentStatus"
    and same: "\<forall>c \<in> set calls. agentIdOf (act_req c) = agentId"
    and clock: "sorted (map act_clock calls)"
    and split: "calls = earlier @ c # later"
  shows "(let before = recordAll agentStatus appName earlier;
              after = recordAll agentStatus appName (earlier @ [c]);
              n = (case lookupAgent before appName agentId of None \<Rightarrow> 0 | Some a \<Rightarrow> requestCount a)
          in length (agentRecords before appName agentId) \<le> 1
           \<and> (\<exists>a'. agentRecords after appName agentId = [a']
                 \<and> lastSeen a' = ISOString (act_clock c)
                 \<and> n \<le> requestCount a'
                 \<and> (n < 2 ^ 53 \<longrightarrow> requestCount a' = n + 1)
                 \<and> (earlier \<noteq> [] \<longrightarrow>
                      (\<exists>a. agentRecords before appName agentId = [a]
                         \<and> requestCount a \<le> requestCount a'
                         \<and> (requestCount a < 2 ^ 53 \<longrightarrow> requestCount a < requestCount a')
                         \<and> lastSeen a = ISOString (act_clock (last earlier))
                         \<and> act_clock (last earlier) \<le> act_clock c))))"
proof -
  let ?before = "recordAll agentStatus appName earlier"
  let ?after = "recordAll agentStatus appName (earlier @ [c])"
  let ?n = "case lookupAgent ?before appName agentId of None \<Rightarrow> 0 | Some a \<Rightarrow> requestCount a"
  have ub: "unique_keys ?before" by (rule unique_keys_recordAll [OF uk])
  have ua: "unique_keys ?after" by (rule unique_keys_recordAll [OF uk])
  have idc: "agentIdOf (act_req c) = agentId" using same split by simp
  have after: "?after = recordActivity ?before appName c" by (rule recordAll_snoc)
  obtain a' where a': "lookupAgent ?after appName agentId = Some a'"
    and ls: "lastSeen a' = ISOString (act_clock c)"
    and rc: "requestCount a' = jsIncrement ?n"
    using lookup_recordActivity_same [of ?before appName c]
    by (auto simp: after idc touchAgent_fields newAgent_def split: option.splits)
  have ge: "?n \<le> requestCount a'" by (simp only: rc jsIncrement_ge)
  have up: "?n < 2 ^ 53 \<longrightarrow> requestCount a' = ?n + 1"
    using jsIncrement_below [of ?n] by (simp only: rc) blast
  have one: "length (agentRecords ?before appName agentId) \<le> 1"
    by (simp add: agentRecords_lookup [OF ub] split: option.splits)
  have prev: "\<exists>a. agentRecords ?before appName agentId = [a]
        \<and> requestCount a \<le> requestCount a'
        \<and> (requestCount a < 2 ^ 53 \<longrightarrow> requestCount a < requestCount a')
        \<and> lastSeen a = ISOString (act_clock (last earlier))
        \<and> act_clock (last earlier) \<le> act_clock c" if ne: "earlier \<noteq> []"
  proof -
    obtain front l where e: "earlier = front @ [l]"
      using ne by (metis append_butlast_last_id)
    have idl: "agentIdOf (act_req l) = agentId" using same split e by simp
    have b: "?before = recordActivity (recordAll agentStatus appName front) appName l"
      by (simp only: e recordAll_snoc)
    obtain a where a: "lookupAgent ?before appName agentId = Some a"
      and la: "lastSeen a = ISOString (act_clock l)"
      using lookup_recordActivity_same [of "recordAll agentStatus appName front" appName l]
      by (auto simp: b idl touchAgent_fields)
    have le: "act_clock l \<le> act_clock c"
      using clock by (simp add: split e sorted_append)
    have ra: "agentRecords ?before appName agentId = [a]"
      using a by (simp add: agentRecords_lookup [OF ub])
    have n: "?n = requestCount a" using a by simp
    have "requestCount a \<le> requestCount a'" using ge by (simp only: n)
    moreover have "requestCount a < 2 ^ 53 \<longrightarrow> requestCount a < requestCount a'"
      using up by (simp only: n) simp
    ultimately show ?thesis using ra la le by (simp add: e)
  qed
  have ar: "agentRecords ?after appName agentId = [a']"
    using a' by (simp add: agentRecords_lookup [OF ua])
  show ?thesis
    unfolding Let_def using one ar ls ge up prev by blast
qed

theorem recordActivity_sequence_monotone_witness:
  "unique_keys sample_registry
   \<and> sorted (map act_clock [sample_call req_direct 1, sample_call req_direct 2, sample_call req_direct 2])
   \<and> map (\<lambda>a. (requestCount a, lastSeen a))
        (agentRecords (recordAll sample_registry ''arm'' [sample_call req_direct 1, sample_call req_direct 2])
           ''arm'' ''10.0.0.7'')
      = [(6, ISOString 2)]
   \<and> map (\<lambda>a. (requestCount a, lastSeen a))
        (agentRecords (recordAll sample_registry ''arm''
            ([sample_call req_direct 1, sample_call req_direct 2] @ [sample_call req_direct 2]))
           ''arm'' ''10.0.0.7'')
      = [(7, ISOString 2)]"
  supply recordAll.simps [simp del]
proof -
  have u: "unique_keys sample_registry"
    by (simp add: unique_keys_def sample_registry_def)
  have s: "sorted (map act_clock [sample_call req_direct 1, sample_call req_direct 2, sample_call req_direct 2])"
    by (simp add: sample_call_def)
  have i: "\<forall>c \<in> set [sample_call req_direct 1, sample_call req_direct 2, sample_call req_direct 2].
      agentIdOf (act_req c) = ''10.0.0.7''"
    by (simp add: sample_call_def sample_ids)
  have p: "[sample_call req_direct 1, sample_call req_direct 2, sample_call req_direct 2]
      = [sample_call req_direct 1, sample_call req_direct 2] @ sample_call req_direct 2 # []"
    by simp
  have p1: "[sample_call req_direct 1, sample_call req_direct 2, sample_call req_direct 2]
      = [sample_call req_direct 1] @ sample_call req_direct 2 # [sample_call req_direct 2]"
    by simp
  have p0: "[sample_call req_direct 1, sample_call req_direct 2, sample_call req_direct 2]
      = [] @ sample_call req_direct 1 # [sample_call req_direct 2, sample_call req_direct 2]"
    by simp
  have l0: "lookupAgent sample_registry ''arm'' ''10.0.0.7'' = Some (sample_agent ''10.0.0.7'' (ISOString 2800000))"
    by (simp add: lookupAgent_def sample_registry_def)
  have c: "act_clock (sample_call req_direct n) = n" for n by (simp add: sample_call_def)
  note t0 = recordActivity_sequence_monotone [OF u i s p0, of "''arm''"]
  note t1 = recordActivity_sequence_monotone [OF u i s p1, of "''arm''"]
  note t2 = recordActivity_sequence_monotone [OF u i s p, of "''arm''"]
  from t0 obtain a1 where a1: "agentRecords (recordAll sample_registry ''arm'' [sample_call req_direct 1]) ''arm'' ''10.0.0.7'' = [a1]"
    "requestCount a1 = 5"
    by (auto simp: Let_def l0 sample_agent_def recordAll.simps(1))
  have u1: "unique_keys (recordAll sample_registry ''arm'' [sample_call req_direct 1])"
    by (rule unique_keys_recordAll [OF u])
  have l1: "lookupAgent (recordAll sample_registry ''arm'' [sample_call req_direct 1]) ''arm'' ''10.0.0.7'' = Some a1"
    using a1(1) by (simp add: agentRecords_lookup [OF u1] split: option.splits)
  from t1 obtain a2 where a2: "agentRecords (recordAll sample_registry ''arm'' [sample_call req_direct 1, sample_call req_direct 2]) ''arm'' ''10.0.0.7'' = [a2]"
    "requestCount a2 = 6" "lastSeen a2 = ISOString 2"
    by (auto simp: Let_def l1 a1 c)
  have u2: "unique_keys (recordAll sample_registry ''arm'' [sample_call req_direct 1, sample_call req_direct 2])"
    by (rule unique_keys_recordAll [OF u])
  have l2: "lookupAgent (recordAll sample_registry ''arm'' [sample_call req_direct 1, sample_call req_direct 2]) ''arm'' ''10.0.0.7'' = Some a2"
    using a2(1) by (simp add: agentRecords_lookup [OF u2] split: option.splits)
  from t2 obtain a3 where a3: "agentRecords (recordAll sample_registry ''arm'' ([sample_call req_direct 1, sample_call req_direct 2] @ [sample_call req_direct 2])) ''arm'' ''10.0.0.7'' = [a3]"
    "requestCount a3 = 7" "lastSeen a3 = ISOString 2"
    by (auto simp: Let_def l2 a2 c)
  show ?thesis using u s a2 a3 by simp
qed

lemma ids_match_record:
  assumes "ids_match reg"
  shows "ids_match (recordAgentStatus now reg app req action version)"
proof -
  define m where "m = (case map_of reg app of None \<Rightarrow> [] | Some m \<Rightarrow> m)"
  define aid where "aid = or_else (headers req ''x-agent-id'') (getClientIP req)"
  define a0 where "a0 = (case map_of m aid of
      None \<Rightarrow> newAgent aid (or_else (headers req ''x-local-version'') []) (getClientIP req)
                (ISOString now) action (or_else (headers req ''user-agent'') ''unknown'')
    | Some a \<Rightarrow> a)"
  have mm: "list_all (\<lambda>x. agent_id (snd x) = fst x) m"
  proof (cases "map_of reg app")
    case None
    then show ?thesis by (simp add: m_def)
  next
    case (Some m0)
    then have "(app, m0) \<in> set reg" by (rule map_of_SomeD)
    with assms have "list_all (\<lambda>x. agent_id (snd x) = fst x) m0"
      by (force simp: ids_match_def list_all_iff)
    with Some show ?thesis by (simp add: m_def)
  qed
  have "agent_id a0 = aid"
    using mm by (auto simp: a0_def newAgent_def list_all_iff split: option.splits dest!: map_of_SomeD)
  then have v: "agent_id (touchAgent req (ISOString now) action version a0) = aid"
    by (simp add: touchAgent_fields)
  have m': "list_all (\<lambda>x. agent_id (snd x) = fst x)
      (AList.update aid (touchAgent req (ISOString now) action version a0) m)"
    using mm v set_update_subset [of aid "touchAgent req (ISOString now) action version a0" m]
    by (auto simp: list_all_iff)
  have "ids_match (AList.update app (AList.update aid (touchAgent req (ISOString now) action version a0) m) reg)"
    using assms m' set_update_subset [of app "AList.update aid (touchAgent req (ISOString now) action version a0) m" reg]
    unfolding ids_match_def list_all_iff by fastforce
  then show ?thesis
    unfolding recordAgentStatus_def Let_def m_def aid_def a0_def .
qed

lemma ids_match_cleanup:
  assumes "unique_keys reg" "ids_match reg"
  shows "ids_match (cleanupInactiveAgents now reg)"
  using assms(2) unfolding cleanup_eq [OF assms(1)] ids_match_def list_all_iff retained_def
  by force

lemma invariant_step:
  "unique_keys reg \<and> ids_match reg \<Longrightarrow> unique_keys (step reg op) \<and> ids_match (step reg op)"
  by (cases op)
    (auto simp: recordActivity_def unique_keys_record ids_match_record unique_keys_cleanup ids_match_cleanup)

lemma invariant_foldl:
  "unique_keys reg \<and> ids_match reg \<Longrightarrow> unique_keys (foldl step reg ops) \<and> ids_match (foldl step reg ops)"
proof (induction ops arbitrary: reg)
  case Nil
  then show ?case by simp
next
  case (Cons op ops)
  show ?case using Cons.IH [OF invariant_step [OF Cons.prems]] by simp
qed

text \<open>
  Claim C10. In every registry reached from the empty one by calls of
  \<open>recordAgentStatus\<close> and sweeps, each stored record's id is the key it is stored
  under, so every entry of \<open>listAgents\<close> is found again under its own id.
\<close>

theorem reachable_id_equals_key:
  "(\<forall>(appName, appAgents) \<in> set (run ops). \<forall>(agentId, agent) \<in> set appAgents. agent_id agent = agentId)
   \<and> (\<forall>agent \<in> set (listAgents (run ops) appName).
         lookupAgent (run ops) appName (agent_id agent) = Some agent)
   \<and> unique_keys (run ops)"
proof -
  have i: "unique_keys (run ops) \<and> ids_match (run ops)"
    unfolding run_def by (rule invariant_foldl) (simp add: unique_keys_def ids_match_def)
  then have a: "\<forall>(appName, appAgents) \<in> set (run ops). \<forall>(agentId, agent) \<in> set appAgents. agent_id agent = agentId"
    by (fastforce simp: ids_match_def list_all_iff)
  have b: "lookupAgent (run ops) appName (agent_id agent) = Some agent"
    if "agent \<in> set (listAgents (run ops) appName)" for agent
  proof -
    have "\<exists>m. map_of (run ops) appName = Some m \<and> agent \<in> snd ` set m"
      using that by (cases "map_of (run ops) appName") (simp_all add: listAgents_def)
    then obtain m where m: "map_of (run ops) appName = Some m" "agent \<in> snd ` set m"
      by blast
    then obtain k where k: "(k, agent) \<in> set m" by auto
    have "(appName, m) \<in> set (run ops)" using m(1) by (rule map_of_SomeD)
    with a k have "agent_id agent = k" by auto
    moreover have "distinct (map fst m)" using i m(1) by (auto intro: unique_keys_inner)
    ultimately show ?thesis using k m(1) by (simp add: lookupAgent_def)
  qed
  from a b i show ?thesis by blast
qed

theorem reachable_id_equals_key_witness:
  "map agent_id (listAgents (run sample_ops) ''robo'') = [''10.0.0.7'', ''robot-1'']
   \<and> map (\<lambda>a. lookupAgent (run sample_ops) ''robo'' (agent_id a)) (listAgents (run sample_ops) ''robo'')
       = map Some (listAgents (run sample_ops) ''robo'')
   \<and> map fst (run sample_ops) = [''robo'']"
proof -
  have h: "headers req_direct h = None"
    "headers req_with_id ''x-local-version'' = None" "headers req_with_id ''user-agent'' = None"
    "headers req_with_id ''x-agent-id'' = Some ''robot-1''" for h
    by (simp_all add: req_direct_def req_with_id_def no_headers_def)
  have r: "map (\<lambda>e. (fst e, map (\<lambda>x. (fst x, agent_id (snd x))) (snd e))) (run sample_ops)
      = [(''robo'', [(''10.0.0.7'', ''10.0.0.7''), (''robot-1'', ''robot-1'')])]"
    by (simp add: run_def sample_ops_def sample_call_def recordActivity_def recordAgentStatus_def
        cleanupInactiveAgents_def touchAgent_def newAgent_def Let_def sample_ids h)
  have k: "map fst (run sample_ops) = [''robo'']"
    using arg_cong [OF r, of "map fst"] by (simp add: o_def)
  have l: "map agent_id (listAgents (run sample_ops) ''robo'') = [''10.0.0.7'', ''robot-1'']"
  proof -
    obtain m1 where m: "run sample_ops = [(''robo'', m1)]"
      "map (\<lambda>x. (fst x, agent_id (snd x))) m1 = [(''10.0.0.7'', ''10.0.0.7''), (''robot-1'', ''robot-1'')]"
      using r by (auto simp: map_eq_Cons_conv)
    from arg_cong [OF m(2), of "map snd"] show ?thesis
      by (simp add: listAgents_def m(1) o_def)
  qed
  have "map (\<lambda>a. lookupAgent (run sample_ops) ''robo'' (agent_id a)) (listAgents (run sample_ops) ''robo'')
       = map Some (listAgents (run sample_ops) ''robo'')"
    using reachable_id_equals_key [of sample_ops "''robo''"] by (intro map_cong) auto
  with k l show ?thesis by simp
qed

subsection \<open>Manifest builder\<close>

lemma buildFileList_first_missing:
  assumes "\<forall>g \<in> set pre. \<exists>q c. file_path g = Some q \<and> q \<noteq> [] \<and> fs q = Some (File c)"
    and "file_path f = Some p" and "p \<noteq> []" and "fs p = None"
  shows "buildFileList digest fs baseUrl appName vers (pre @ f # post) =
     (Inl (Error (''Binary file not found: '' @ p)),
      concat (map (\<lambda>g. [ExistsSync (or_else (file_path g) []), ReadFileSync (or_else (file_path g) [])]) pre)
        @ [ExistsSync p])"
  using assms(1)
proof (induction pre)
  case Nil
  then show ?case using assms(2-4) by simp
next
  case (Cons g pre)
  then obtain q c where q: "file_path g = Some q" "q \<noteq> []" "fs q = Some (File c)"
    by auto
  have ih: "buildFileList digest fs baseUrl appName vers (pre @ f # post) =
     (Inl (Error (''Binary file not found: '' @ p)),
      concat (map (\<lambda>g. [ExistsSync (or_else (file_path g) []), ReadFileSync (or_else (file_path g) [])]) pre)
        @ [ExistsSync p])"
    using Cons by simp
  show ?case
    by (simp add: q calculateSHA256_def Let_def ih)
qed

text \<open>
  Claim C4, as stated, fails in its last part. The existence check of a file is made inside
  the loop, just before that file is hashed: with a first file that exists and a second one
  that does not, the call fails with the "not found" error of the second file after it has
  already read the first file and computed its digest.
\<close>

theorem digest_computed_before_later_existence_check_counterexample:
  "fst (generateConfig sample_settings sample_digest sample_fs (Array [file_agent, file_missing])
          ''2.0.0'' ''robo'' no_options)
     = Inl (Error ''Binary file not found: /srv/robo/missing.bin'')
   \<and> ReadFileSync ''/srv/robo/agent.bin''
       \<in> set (snd (generateConfig sample_settings sample_digest sample_fs (Array [file_agent, file_missing])
                    ''2.0.0'' ''robo'' no_options))"
  by (simp add: generateConfig_def sample_settings_def sample_fs_def file_agent_def file_missing_def
      no_options_def calculateSHA256_def Let_def)

text \<open>
  Claim C4, amended. An empty \<open>files\<close> array fails first, with "Files array cannot be
  empty", then an empty \<open>appName\<close>, with "App name is required", both with no
  filesystem access at all. Otherwise the files are taken in order: when the files before
  the first missing one are readable files, the call fails with "Binary file not found: "
  followed by the missing path, and what has touched the filesystem by then is, for each
  earlier file in order, its existence check and then its read, and last the existence
  check of the missing file.
\<close>

theorem manifest_validation_order:
  "generateConfig env digest fs (Array []) vers appName opts
     = (Inl (Error ''Files array cannot be empty''), [])
   \<and> (fl \<noteq> [] \<longrightarrow>
        generateConfig env digest fs (Array fl) vers [] opts = (Inl (Error ''App name is required''), []))
   \<and> (appName \<noteq> []
        \<and> (\<forall>g \<in> set pre. \<exists>q c. file_path g = Some q \<and> q \<noteq> [] \<and> fs q = Some (File c))
        \<and> file_path f = Some p \<and> p \<noteq> [] \<and> fs p = None \<longrightarrow>
        generateConfig env digest fs (Array (pre @ f # post)) vers appName opts
          = (Inl (Error (''Binary file not found: '' @ p)),
             concat (map (\<lambda>g. [ExistsSync (or_else (file_path g) []),
                                ReadFileSync (or_else (file_path g) [])]) pre)
               @ [ExistsSync p]))"
  by (simp add: generateConfig_def Let_def buildFileList_first_missing)

theorem manifest_validation_order_witness:
  "generateConfig sample_settings sample_digest sample_fs (Array [file_agent, file_ui, file_missing, file_agent])
       ''2.0.0'' ''robo'' no_options
     = (Inl (Error ''Binary file not found: /srv/robo/missing.bin''),
        [ExistsSync ''/srv/robo/agent.bin'', ReadFileSync ''/srv/robo/agent.bin'',
         ExistsSync ''/srv/robo/ui.tar'', ReadFileSync ''/srv/robo/ui.tar'',
         ExistsSync ''/srv/robo/missing.bin''])
   \<and> generateConfig sample_settings sample_digest sample_fs (Array [file_missing]) ''2.0.0'' [] no_options
     = (Inl (Error ''App name is required''), [])"
proof -
  have pre: "\<forall>g \<in> set [file_agent, file_ui]. \<exists>q c. file_path g = Some q \<and> q \<noteq> [] \<and> sample_fs q = Some (File c)"
    by (simp add: file_agent_def file_ui_def sample_fs_def)
  have f: "file_path file_missing = Some ''/srv/robo/missing.bin''" "sample_fs ''/srv/robo/missing.bin'' = None"
    by (simp_all add: file_missing_def sample_fs_def)
  have p: "file_path file_agent = Some ''/srv/robo/agent.bin''" "file_path file_ui = Some ''/srv/robo/ui.tar''"
    by (simp_all add: file_agent_def file_ui_def)
  show ?thesis
    using manifest_validation_order [of sample_settings sample_digest sample_fs "''2.0.0''" "''robo''" no_options
        "[file_missing]" "[file_agent, file_ui]" file_missing "''/srv/robo/missing.bin''" "[file_agent]"]
      manifest_validation_order [of sample_settings sample_digest sample_fs "''2.0.0''" "[]" no_options
        "[file_missing]" "[]" file_missing "''/srv/robo/missing.bin''" "[]"]
      pre f
    by (simp add: p)
qed

lemma buildFileList_entries:
  "buildFileList digest fs baseUrl appName vers fl = (Inr fileList, evs) \<Longrightarrow>
   list_all2 (\<lambda>file ent. entry_version ent = or_else (file_version file) vers
                \<and> entry_restart ent = file_restart file) fl fileList"
proof (induction fl arbitrary: fileList evs)
  case Nil
  then show ?case by simp
next
  case (Cons f0 fl)
  then show ?case
    by (auto simp: Let_def split: if_splits prod.splits sum.splits)
qed

lemma version_line_in_fileChunks:
  "(''    version: '' @ dq @ v @ dq @ nl) \<in> set (fileChunks vers ent)
     \<longleftrightarrow> v = entry_version ent \<and> entry_version ent \<noteq> [] \<and> entry_version ent \<noteq> vers"
  by (auto simp: fileChunks_def dq_def nl_def)

text \<open>
  Claim C5. In a manifest that was built, the text is the concatenation of its pieces; the
  file list has one entry per input file, whose version is the file's own non-empty
  \<open>version\<close>, else the manifest version; and the pieces of an entry contain a
  \<open>version\<close> line exactly when that effective version differs from the manifest
  version, in which case the line carries the effective version.
\<close>

theorem per_file_version_line_iff_differs:
  assumes "generateConfig env digest fs (Array fl) vers appName opts = (Inr m, evs)"
  shows "yaml m = concat (yamlChunks (config m))
       \<and> yamlChunks (config m) =
           [''version: '' @ dq @ vers @ dq @ nl @ ''files:'' @ nl]
           @ concat (map (fileChunks vers) (config_files (config m)))
           @ (case config_restart_cmd (config m) of
                None \<Rightarrow> []
              | Some c \<Rightarrow> [''restart_cmd: '' @ [CHR 0x27] @ c @ [CHR 0x27] @ nl])
       \<and> length (config_files (config m)) = length fl
       \<and> (\<forall>i < length fl.
             entry_version (config_files (config m) ! i)
               = (case file_version (fl ! i) of None \<Rightarrow> vers | Some v \<Rightarrow> if v \<noteq> [] then v else vers)
           \<and> ((\<exists>v. (''    version: '' @ dq @ v @ dq @ nl) \<in> set (fileChunks vers (config_files (config m) ! i)))
                \<longleftrightarrow> entry_version (config_files (config m) ! i) \<noteq> vers)
           \<and> (entry_version (config_files (config m) ! i) \<noteq> vers \<longrightarrow>
                (''    version: '' @ dq @ entry_version (config_files (config m) ! i) @ dq @ nl)
                  \<in> set (fileChunks vers (config_files (config m) ! i))))"
proof -
  obtain fileList rc where b: "buildFileList digest fs (or_else (opt_baseUrl opts) (BASE_URL env)) appName vers fl
      = (Inr fileList, evs)"
    and m: "m = \<lparr>yaml = concat (yamlChunks \<lparr>config_version = vers, config_files = fileList,
                  config_restart_cmd = rc\<rparr>),
               config = \<lparr>config_version = vers, config_files = fileList, config_restart_cmd = rc\<rparr>\<rparr>"
    and rcne: "rc \<noteq> Some []"
    using assms
    by (auto simp: generateConfig_def Let_def split: if_splits prod.splits sum.splits js_string.splits)
  have l2: "list_all2 (\<lambda>file ent. entry_version ent = or_else (file_version file) vers
                \<and> entry_restart ent = file_restart file) fl fileList"
    by (rule buildFileList_entries [OF b])
  have len: "length fileList = length fl" using l2 by (simp add: list_all2_lengthD)
  have ev: "entry_version (fileList ! i) = or_else (file_version (fl ! i)) vers" if "i < length fl" for i
    using list_all2_nthD [OF l2 that] by simp
  have oe: "or_else x vers = (case x of None \<Rightarrow> vers | Some v \<Rightarrow> if v \<noteq> [] then v else vers)" for x
    by (cases x) auto
  have ne: "entry_version (fileList ! i) \<noteq> vers \<Longrightarrow> entry_version (fileList ! i) \<noteq> []" if "i < length fl" for i
    using ev [OF that] by (cases "file_version (fl ! i)") (auto split: if_splits)
  have y: "yamlChunks (config m) =
           [''version: '' @ dq @ vers @ dq @ nl @ ''files:'' @ nl]
           @ concat (map (fileChunks vers) (config_files (config m)))
           @ (case config_restart_cmd (config m) of
                None \<Rightarrow> []
              | Some c \<Rightarrow> [''restart_cmd: '' @ [CHR 0x27] @ c @ [CHR 0x27] @ nl])"
    using rcne by (cases rc) (simp_all add: m yamlChunks_def)
  have cf: "config_files (config m) = fileList" by (simp add: m)
  have ym: "yaml m = concat (yamlChunks (config m))" by (simp add: m)
  have A: "entry_version (fileList ! i)
        = (case file_version (fl ! i) of None \<Rightarrow> vers | Some v \<Rightarrow> if v \<noteq> [] then v else vers)"
    if "i < length fl" for i
    using ev [OF that] by (simp only: oe)
  have B: "(\<exists>v. (''    version: '' @ dq @ v @ dq @ nl) \<in> set (fileChunks vers (fileList ! i)))
        \<longleftrightarrow> entry_version (fileList ! i) \<noteq> vers" if "i < length fl" for i
    using ne [OF that] by (simp only: version_line_in_fileChunks) blast
  have C: "entry_version (fileList ! i) \<noteq> vers \<longrightarrow>
        (''    version: '' @ dq @ entry_version (fileList ! i) @ dq @ nl) \<in> set (fileChunks vers (fileList ! i))"
    if "i < length fl" for i
    using ne [OF that] by (simp only: version_line_in_fileChunks) blast
  have per: "entry_version (fileList ! i)
               = (case file_version (fl ! i) of None \<Rightarrow> vers | Some v \<Rightarrow> if v \<noteq> [] then v else vers)
           \<and> ((\<exists>v. (''    version: '' @ dq @ v @ dq @ nl) \<in> set (fileChunks vers (fileList ! i)))
                \<longleftrightarrow> entry_version (fileList ! i) \<noteq> vers)
           \<and> (entry_version (fileList ! i) \<noteq> vers \<longrightarrow>
                (''    version: '' @ dq @ entry_version (fileList ! i) @ dq @ nl)
                  \<in> set (fileChunks vers (fileList ! i)))" if "i < length fl" for i
    by (intro conjI A B C that)
  show ?thesis
    unfolding cf
  proof (intro conjI allI impI)
    show "yaml m = concat (yamlChunks (config m))" by (rule ym)
    show "yamlChunks (config m) =
           [''version: '' @ dq @ vers @ dq @ nl @ ''files:'' @ nl]
           @ concat (map (fileChunks vers) fileList)
           @ (case config_restart_cmd (config m) of
                None \<Rightarrow> []
              | Some c \<Rightarrow> [''restart_cmd: '' @ [CHR 0x27] @ c @ [CHR 0x27] @ nl])"
      using y by (simp only: cf)
    show "length fileList = length fl" by (rule len)
  qed (use per in blast)+
qed

theorem per_file_version_line_iff_differs_witness:
  "fst (generateConfig sample_settings sample_digest sample_fs (Array [file_agent, file_ui]) ''2.0.0'' ''robo'' no_options)
     = Inr (projr (fst (generateConfig sample_settings sample_digest sample_fs (Array [file_agent, file_ui]) ''2.0.0'' ''robo'' no_options)))
   \<and> (''    version: '' @ dq @ ''2.1.0'' @ dq @ nl)
       \<in> set (fileChunks ''2.0.0'' (config_files (config (projr (fst
            (generateConfig sample_settings sample_digest sample_fs (Array [file_agent, file_ui]) ''2.0.0'' ''robo'' no_options)))) ! 1))
   \<and> (''    version: '' @ dq @ ''2.0.0'' @ dq @ nl)
       \<notin> set (fileChunks ''2.0.0'' (config_files (config (projr (fst
            (generateConfig sample_settings sample_digest sample_fs (Array [file_agent, file_ui]) ''2.0.0'' ''robo'' no_options)))) ! 0))"
proof -
  let ?G = "generateConfig sample_settings sample_digest sample_fs (Array [file_agent, file_ui]) ''2.0.0'' ''robo'' no_options"
  have s: "\<exists>m evs. ?G = (Inr m, evs)"
    by (simp add: generateConfig_def sample_settings_def sample_fs_def file_agent_def file_ui_def
        no_options_def calculateSHA256_def Let_def)
  then obtain m evs where g: "?G = (Inr m, evs)" by blast
  note q = per_file_version_line_iff_differs [OF g, THEN conjunct2, THEN conjunct2, THEN conjunct2, rule_format]
  have p1: "1 < length [file_agent, file_ui]" and p0: "0 < length [file_agent, file_ui]"
    by simp_all
  have v: "file_version ([file_agent, file_ui] ! 1) = Some ''2.1.0''" "file_version ([file_agent, file_ui] ! 0) = None"
    by (simp_all add: file_agent_def file_ui_def)
  have t1: "entry_version (config_files (config m) ! 1) = ''2.1.0''"
    using q [OF p1, THEN conjunct1] by (simp only: v) simp
  have t0: "entry_version (config_files (config m) ! 0) = ''2.0.0''"
    using q [OF p0, THEN conjunct1] by (simp only: v) simp
  have a: "(''    version: '' @ dq @ ''2.1.0'' @ dq @ nl) \<in> set (fileChunks ''2.0.0'' (config_files (config m) ! 1))"
    using q [OF p1, THEN conjunct2, THEN conjunct2] by (simp only: t1) simp
  have "\<not> (\<exists>v. (''    version: '' @ dq @ v @ dq @ nl) \<in> set (fileChunks ''2.0.0'' (config_files (config m) ! 0)))"
    using q [OF p0, THEN conjunct2, THEN conjunct1] by (simp only: t0) simp
  then have b: "(''    version: '' @ dq @ ''2.0.0'' @ dq @ nl) \<notin> set (fileChunks ''2.0.0'' (config_files (config m) ! 0))"
    by blast
  have m: "projr (fst ?G) = m" "fst ?G = Inr m" by (simp_all add: g)
  show ?thesis using a b by (simp only: m) simp
qed

subsection \<open>Record query\<close>

lemma set_db_all: "set (db_all cast rows conds) = {r \<in> set rows. \<forall>c \<in> set conds. holds cast r c}"
  by (auto simp: db_all_def list_all_iff)

lemma type_conds:
  "(\<forall>c \<in> set (typeConds ty). holds cast r c)
     \<longleftrightarrow> (\<forall>s. ty = Some s \<and> s \<noteq> [] \<longrightarrow> rec_type r = Some s)"
  by (cases ty) (auto simp: typeConds_def)

lemma duration_conds:
  "(\<forall>c \<in> set (durationConds parseInt du). holds cast r c)
     \<longleftrightarrow> (\<forall>d. du = Some d \<and> d \<noteq> [] \<longrightarrow> (\<exists>n. parseInt d = Some n \<and> rec_duration r = Some n))"
proof (cases du)
  case None
  then show ?thesis by (simp add: durationConds_def)
next
  case (Some d)
  then show ?thesis by (cases "parseInt d") (auto simp: durationConds_def)
qed

lemma date_conds:
  "date \<noteq> [] \<Longrightarrow> dateGetTime (date @ ''T00:00:00'') = Some ms \<Longrightarrow>
   (\<forall>c \<in> set (dateConds dateGetTime (Some date)). holds cast r c)
     \<longleftrightarrow> ms div 1000 \<le> cast (rec_timestamp r) \<and> cast (rec_timestamp r) < ms div 1000 + 86400"
  by (simp add: dateConds_def Let_def)

lemma no_date_conds: "dateConds dateGetTime None = []" "dateConds dateGetTime (Some []) = []"
  by (simp_all add: dateConds_def)

lemma query_mem:
  "r \<in> set (queryGameRecords dateGetTime parseInt cast rows date ty du) \<longleftrightarrow>
     r \<in> set rows
     \<and> (\<forall>c \<in> set (dateConds dateGetTime date). holds cast r c)
     \<and> (\<forall>c \<in> set (typeConds ty). holds cast r c)
     \<and> (\<forall>c \<in> set (durationConds parseInt du). holds cast r c)"
  by (simp only: queryGameRecords_def set_db_all set_append ball_Un mem_Collect_eq)

lemma set_query_no_date:
  "set (queryGameRecords dateGetTime parseInt cast rows None ty du)
     = {r \<in> set rows.
          (\<forall>s. ty = Some s \<and> s \<noteq> [] \<longrightarrow> rec_type r = Some s)
        \<and> (\<forall>d. du = Some d \<and> d \<noteq> [] \<longrightarrow> (\<exists>n. parseInt d = Some n \<and> rec_duration r = Some n))}"
  by (rule set_eqI) (simp only: query_mem type_conds duration_conds no_date_conds, simp)

lemma set_query_date:
  assumes "date \<noteq> []" "dateGetTime (date @ ''T00:00:00'') = Some ms"
  shows "set (queryGameRecords dateGetTime parseInt cast rows (Some date) ty du)
     = {r \<in> set rows.
          ms div 1000 \<le> cast (rec_timestamp r) \<and> cast (rec_timestamp r) < ms div 1000 + 86400
        \<and> (\<forall>s. ty = Some s \<and> s \<noteq> [] \<longrightarrow> rec_type r = Some s)
        \<and> (\<forall>d. du = Some d \<and> d \<noteq> [] \<longrightarrow> (\<exists>n. parseInt d = Some n \<and> rec_duration r = Some n))}"
  by (rule set_eqI) (simp only: query_mem type_conds duration_conds date_conds [where dateGetTime=dateGetTime and date=date and ms=ms, OF assms], simp)

text \<open>
  Claim C6. The filter is to select the local day of the date: the comment in the code
  gives the range as 00:00:00 to 23:59:59 of the local time zone, so a record at local
  midnight of the following day is to be left out. The code takes the end of the range 86400
  seconds after local midnight, which on a day of 23 hours is one hour into the following
  day. On a server in New York, where 2024-03-10 is such a day, the query for that date
  returns a record stamped at local midnight of 2024-03-11 (1710129600).
\<close>

theorem date_filter_returns_next_local_midnight:
  "newYork_getTime (''2024-03-11'' @ ''T00:00:00'') = Some (cast_integer ''1710129600'' * 1000)
   \<and> row_at 3 ''1710129600''
       \<in> set (queryGameRecords newYork_getTime parseInt_unused cast_integer
                 [row_at 3 ''1710129600''] (Some ''2024-03-10'') None None)"
  by (simp add: queryGameRecords_def db_all_def dateConds_def typeConds_def durationConds_def
      newYork_getTime_def cast_integer_def sqlite_space_def row_at_def)

end
